theory Spec2Isabelle
  imports Main
begin

section \<open>JavaScript values and errors\<close>

text \<open>
  The plugin \<^verbatim>\<open>packages/vuepress-plugin-apidoc/index.js\<close> is embedded as functions on
  records. A JavaScript exception is a value of \<open>error\<close>: \<open>TypeError\<close> is what the
  runtime throws when a method is called on \<^verbatim>\<open>undefined\<close> (\<^verbatim>\<open>undefined.filter\<close>,
  \<^verbatim>\<open>undefined.replace\<close>), \<open>RenderError\<close> stands for anything the markdown renderer
  throws. An optional field is an \<open>option\<close>; \<open>None\<close> is \<^verbatim>\<open>undefined\<close>.
\<close>

datatype error = TypeError | RenderError

text \<open>JavaScript truthiness of an optional string: absent and the empty string are falsy.\<close>

definition truthy :: "string option \<Rightarrow> bool" where
  "truthy v = (case v of None \<Rightarrow> False | Some s \<Rightarrow> s \<noteq> [])"

section \<open>Data model\<close>

record example =
  ex_description :: string
  ex_code :: string

text \<open>
  The \<^verbatim>\<open>examples\<close> field of a member is a list of examples in the raw metadata and a
  single HTML string once the pipeline has rendered it.
\<close>

datatype examples = ExampleList "example list" | ExamplesHtml string

record deprecated_info =
  dep_notes :: "string option"

record returns_info =
  returns_summary :: "string option"

record member =
  name :: string
  summary :: "string option"
  description :: "string option"
  examples :: "examples option"
  deprecated :: "deprecated_info option"
  returns :: "returns_info option"
  inherits :: "string option"

text \<open>
  The metadata of one type. The three member lists are optional because the code tests
  for their absence (\<^verbatim>\<open>if (!unsortedArray)\<close>, \<^verbatim>\<open>if (!membersMetadata ...)\<close>);
  \<open>constants\<close> is absent until \<^verbatim>\<open>splitPropertiesAndConstants\<close> has run.
\<close>

record metadata =
  type_name :: string
  type_summary :: "string option"
  type_description :: "string option"
  type_examples :: "examples option"
  properties :: "member list option"
  methods :: "member list option"
  events :: "member list option"
  constants :: "member list option"

record header =
  level :: nat
  title :: string
  slug :: string

subsection \<open>The link rule\<close>

text \<open>
  The value of \<^verbatim>\<open>markdown.renderer.rules.link_open\<close>: the rule VuePress installed
  (it renders a link as a router-link component), or the pass-through function that
  \<^verbatim>\<open>transoformMetadataAndCollectHeaders\<close> assigns (line 286).
\<close>

datatype link_rule = RouterLink | PassThrough

subsection \<open>The processor\<close>

text \<open>
  The fields of a \<^verbatim>\<open>MetadataProcessor\<close> that change or differ between instances.
  \<^verbatim>\<open>this.markdown\<close> is the one renderer of the site, whose link rule is part of the
  state below; \<^verbatim>\<open>this.constantNamingPattern\<close> is \<open>constantNamingPattern_test\<close>.
\<close>

record processor =
  base :: string
  version :: string
  additionalHeaders :: "header list"
  hasConstants :: bool

subsection \<open>Pages\<close>

text \<open>
  The fields of a VuePress page that \<^verbatim>\<open>extendPageData\<close> reads or writes; the fields of
  \<^verbatim>\<open>page.frontmatter\<close> have the prefix \<open>fm\<close>.
\<close>

record page =
  regularPath :: string
  page_title :: string
  page_version :: "string option"
  page_metadataKey :: "string option"
  fm_metadataKey :: "string option"
  fm_layout :: "string option"
  fm_sidebarDepth :: "nat option"
  fm_pageClass :: "string option"
  headers :: "header list option"

subsection \<open>The site: metadata store, processor cache, renderer\<close>

text \<open>
  The process-wide state: \<open>metadataStore\<close> is \<^verbatim>\<open>metadataService.metadata\<close>, an object per
  version whose keys are the type names, kept as a list of pairs in the enumeration
  order of \<^verbatim>\<open>for ... in\<close>; \<open>processed\<close> holds the own properties of the module-level
  object \<^verbatim>\<open>processed\<close> and of the objects stored in it; \<open>renderer_link_open\<close> is the
  link rule of \<^verbatim>\<open>context.markdown\<close>. The logger and \<^verbatim>\<open>metadataService.currentPage\<close>,
  which is only ever set to null here, are left out.

  \<^verbatim>\<open>processed\<close> and the objects in it are plain objects: besides their own properties
  they have the properties of \<^verbatim>\<open>Object.prototype\<close>. \<open>prototypesIntact\<close> says that these
  inherited properties are still the ones the runtime provides: the plugin has not yet
  assigned to \<^verbatim>\<open>Object.prototype\<close>, to one of its members or to the prototype of an
  object of the cache (see \<open>extendPageData\<close>).
\<close>

record site =
  metadataStore :: "string \<Rightarrow> (string \<times> metadata) list option"
  processed :: "string \<Rightarrow> (string \<Rightarrow> processor option) option"
  renderer_link_open :: link_rule
  prototypesIntact :: bool

section \<open>The constant naming pattern\<close>

text \<open>
  \<^verbatim>\<open>this.constantNamingPattern = /^[A-Z0-9_]+$/\<close>. The pattern has no flags, so
  \<^verbatim>\<open>test\<close> keeps no position between calls, \<^verbatim>\<open>^\<close> and \<^verbatim>\<open>$\<close> are the two ends of
  the string, and the name matches exactly when it is non-empty and every character is
  in the class.
\<close>

definition constantChar :: "char \<Rightarrow> bool" where
  "constantChar c = (c \<in> set ''ABCDEFGHIJKLMNOPQRSTUVWXYZ0123456789_'')"

definition constantNamingPattern_test :: "string \<Rightarrow> bool" where
  "constantNamingPattern_test s = (s \<noteq> [] \<and> list_all constantChar s)"

section \<open>splitPropertiesAndConstants\<close>

text \<open>
  The \<^verbatim>\<open>forEach\<close> of \<^verbatim>\<open>splitPropertiesAndConstants\<close>: the two local arrays
  \<^verbatim>\<open>properties\<close> and \<^verbatim>\<open>constants\<close> are the accumulators, \<^verbatim>\<open>push\<close> appends at the end.
\<close>

fun splitLoop :: "member list \<Rightarrow> member list \<Rightarrow> member list \<Rightarrow> member list \<times> member list" where
  "splitLoop [] props cs = (props, cs)"
| "splitLoop (p # ps) props cs =
     (if constantNamingPattern_test (name p)
      then splitLoop ps props (cs @ [p])
      else splitLoop ps (props @ [p]) cs)"

text \<open>
  \<^verbatim>\<open>metadata.properties.forEach\<close> throws a TypeError when the list is absent, before
  anything has been assigned.
\<close>

definition splitPropertiesAndConstants :: "metadata \<Rightarrow> error option \<times> metadata" where
  "splitPropertiesAndConstants m =
     (case properties m of
        None \<Rightarrow> (Some TypeError, m)
      | Some ps \<Rightarrow>
          (case splitLoop ps [] [] of
             (props, cs) \<Rightarrow> (None, m\<lparr>properties := Some props, constants := Some cs\<rparr>)))"

section \<open>External collaborators\<close>

record link =
  link_name :: string
  link_path :: string

text \<open>
  What the plugin takes from outside \<^verbatim>\<open>index.js\<close>, as parameters:
  \<^item> \<open>md_render\<close> is \<^verbatim>\<open>context.markdown.render\<close> (markdown-it); its result depends on the
    link rule in force, and it may throw;
  \<^item> \<open>getLinkForKeyPath\<close> is the resolver of \<^verbatim>\<open>./lib/utils/metadata\<close>, called with a
    key-path, the base path and a version (\<open>None\<close> is \<^verbatim>\<open>null\<close>); \<open>None\<close> as result is
    "no link";
  \<^item> \<open>localeCompare\<close> is \<^verbatim>\<open>String.prototype.localeCompare\<close>, which depends on the
    locale of the runtime;
  \<^item> \<open>toLowerCase\<close> is \<^verbatim>\<open>String.prototype.toLowerCase\<close>, the lower-casing of the
    runtime (of all letters, not only the ASCII ones);
  \<^item> \<open>versions\<close> is the module-level array read from \<^verbatim>\<open>versions.json\<close> (empty when
    the file does not exist), \<open>context_base\<close> is \<^verbatim>\<open>context.base\<close>;
  \<^item> \<open>outsideModel\<close> is what a call of \<^verbatim>\<open>extendPageData\<close> does where its outcome depends
    on the members of \<^verbatim>\<open>Object.prototype\<close>, which belong to the runtime and not to the
    plugin (see \<open>extendPageData\<close>). Nothing is assumed about it.
\<close>

record env =
  md_render :: "link_rule \<Rightarrow> string \<Rightarrow> error + string"
  getLinkForKeyPath :: "string \<Rightarrow> string \<Rightarrow> string option \<Rightarrow> link option"
  localeCompare :: "string \<Rightarrow> string \<Rightarrow> int"
  toLowerCase :: "string \<Rightarrow> string"
  versions :: "string list"
  context_base :: string
  outsideModel :: "page \<Rightarrow> site \<Rightarrow> error option \<times> page \<times> site"

section \<open>MetadataProcessor: construction and state\<close>

definition newMetadataProcessor :: "env \<Rightarrow> string \<Rightarrow> processor" where
  "newMetadataProcessor e v =
     \<lparr>base = context_base e, version = v, additionalHeaders = [], hasConstants = False\<rparr>"

text \<open>
  The state a run of the pipeline works on: the metadata object it mutates in place, the
  processor, and the link rule of the renderer. Every operation returns the state it
  has reached together with the exception it has thrown, if any: what was assigned
  before a \<^verbatim>\<open>throw\<close> stays assigned.
\<close>

record pstate =
  md :: metadata
  proc :: processor
  link_open :: link_rule

fun seqSteps :: "('s \<Rightarrow> error option \<times> 's) list \<Rightarrow> 's \<Rightarrow> error option \<times> 's" where
  "seqSteps [] s = (None, s)"
| "seqSteps (f # fs) s =
     (case f s of
        (Some e, s') \<Rightarrow> (Some e, s')
      | (None, s') \<Rightarrow> seqSteps fs s')"

definition onMetadata :: "(metadata \<Rightarrow> error option \<times> metadata) \<Rightarrow> pstate \<Rightarrow> error option \<times> pstate" where
  "onMetadata f s = (case f (md s) of (e, m') \<Rightarrow> (e, s\<lparr>md := m'\<rparr>))"

section \<open>rewriteTypeLinks\<close>

text \<open>
  \<^verbatim>\<open>const version = (versions.length === 0 || this.version === versions[0]) ? null : this.version\<close>
\<close>

definition linkVersion :: "string list \<Rightarrow> string \<Rightarrow> string option" where
  "linkVersion vs v = (case vs of [] \<Rightarrow> None | v0 # _ \<Rightarrow> if v = v0 then None else Some v)"

text \<open>The template literal \<^verbatim>\<open>`[${link.name}](${link.path})`\<close>.\<close>

definition markdownLink :: "link \<Rightarrow> string" where
  "markdownLink l = ''['' @ link_name l @ '']('' @ link_path l @ '')''"

text \<open>
  A match of \<^verbatim>\<open>/<([^>\/]+)>/\<close> that starts at the first character of the string: the
  captured group and the text after the match. The group is the longest run of
  characters other than \<^verbatim>\<open>>\<close> and \<^verbatim>\<open>/\<close>; a shorter one is followed by a character of
  the run, never by \<^verbatim>\<open>>\<close>, so backtracking finds nothing else.
\<close>

definition customLinkChar :: "char \<Rightarrow> bool" where
  "customLinkChar c = (c \<noteq> CHR ''>'' \<and> c \<noteq> CHR ''/'')"

definition customLinkMatch :: "string \<Rightarrow> (string \<times> string) option" where
  "customLinkMatch s =
     (case s of
        [] \<Rightarrow> None
      | c # t \<Rightarrow>
          if c \<noteq> CHR ''<'' then None
          else (case dropWhile customLinkChar t of
                  [] \<Rightarrow> None
                | d # rest \<Rightarrow>
                    if takeWhile customLinkChar t \<noteq> [] \<and> d = CHR ''>''
                    then Some (takeWhile customLinkChar t, rest)
                    else None))"

text \<open>
  \<^verbatim>\<open>markdownString.replace(customLinkPattern, (match, linkValue) => ...)\<close> with the
  global flag: the string is scanned from left to right; where a match starts, the
  replacer's result is emitted and the scan goes on after the match; elsewhere the
  character is copied. \<open>resolve\<close> is the call of the resolver inside the replacer; when
  it finds no link the replacer returns \<^verbatim>\<open>match\<close>, the matched text.
\<close>

function replaceCustomLinks :: "(string \<Rightarrow> link option) \<Rightarrow> string \<Rightarrow> string" where
  "replaceCustomLinks resolve [] = []"
| "replaceCustomLinks resolve (c # t) =
     (case customLinkMatch (c # t) of
        None \<Rightarrow> c # replaceCustomLinks resolve t
      | Some (k, rest) \<Rightarrow>
          (case resolve k of
             Some l \<Rightarrow> markdownLink l
           | None \<Rightarrow> ''<'' @ k @ ''>'') @ replaceCustomLinks resolve rest)"
  by pat_completeness auto
termination
proof (relation "measure (\<lambda>(resolve, s). length s)")
  fix resolve :: "string \<Rightarrow> link option" and c t x k rest
  assume "customLinkMatch (c # t) = Some x" and "(k, rest) = x"
  then have "dropWhile customLinkChar t = CHR ''>'' # rest"
    by (auto simp: customLinkMatch_def split: if_splits list.splits)
  then have "length rest < length (dropWhile customLinkChar t)"
    by simp
  also have "\<dots> \<le> length t"
    by (rule length_dropWhile_le)
  finally show "((resolve, rest), (resolve, c # t)) \<in> measure (\<lambda>(resolve, s). length s)"
    by simp
qed simp_all

text \<open>
  A match of \<^verbatim>\<open>/\[([^\]]+)\]\(([^)]+)\)/\<close> that starts at the first character of the
  string: the two captured groups (link text and link value) and the text after the
  match. Each group is the longest run of characters other than its closing bracket.
\<close>

definition mdLinkMatch :: "string \<Rightarrow> (string \<times> string \<times> string) option" where
  "mdLinkMatch s =
     (case s of
        [] \<Rightarrow> None
      | c # t \<Rightarrow>
          if c \<noteq> CHR ''['' then None
          else (case dropWhile (\<lambda>x. x \<noteq> CHR '']'') t of
                  d # e # u \<Rightarrow>
                    if takeWhile (\<lambda>x. x \<noteq> CHR '']'') t \<noteq> [] \<and> e = CHR ''(''
                    then (case dropWhile (\<lambda>x. x \<noteq> CHR '')'') u of
                            [] \<Rightarrow> None
                          | f # rest \<Rightarrow>
                              if takeWhile (\<lambda>x. x \<noteq> CHR '')'') u \<noteq> []
                              then Some (takeWhile (\<lambda>x. x \<noteq> CHR '']'') t,
                                         takeWhile (\<lambda>x. x \<noteq> CHR '')'') u, rest)
                              else None)
                    else None
                | _ \<Rightarrow> None))"

text \<open>
  \<^verbatim>\<open>markdownString.replace(mdLinkPattern, (match, linkText, linkValue) => ...)\<close>. The
  matched text is \<^verbatim>\<open>[linkText](linkValue)\<close>.
\<close>

function replaceMdLinks :: "(string \<Rightarrow> link option) \<Rightarrow> string \<Rightarrow> string" where
  "replaceMdLinks resolve [] = []"
| "replaceMdLinks resolve (c # t) =
     (case mdLinkMatch (c # t) of
        None \<Rightarrow> c # replaceMdLinks resolve t
      | Some (txt, k, rest) \<Rightarrow>
          (case resolve k of
             Some l \<Rightarrow> markdownLink l
           | None \<Rightarrow> ''['' @ txt @ '']('' @ k @ '')'') @ replaceMdLinks resolve rest)"
  by pat_completeness auto
termination
proof (relation "measure (\<lambda>(resolve, s). length s)")
  fix resolve :: "string \<Rightarrow> link option" and c t x tx y k rest
  assume "mdLinkMatch (c # t) = Some x" and "(tx, y) = x" and "(k, rest) = y"
  then obtain d e u f where
    t: "dropWhile (\<lambda>x. x \<noteq> CHR '']'') t = d # e # u" and
    u: "dropWhile (\<lambda>x. x \<noteq> CHR '')'') u = f # rest"
    by (auto simp: mdLinkMatch_def split: if_splits list.splits)
  have "length rest < length (dropWhile (\<lambda>x. x \<noteq> CHR '')'') u)"
    using u by simp
  also have "\<dots> \<le> length u"
    by (rule length_dropWhile_le)
  also have "\<dots> \<le> length (dropWhile (\<lambda>x. x \<noteq> CHR '']'') t)"
    using t by simp
  also have "\<dots> \<le> length t"
    by (rule length_dropWhile_le)
  finally show "((resolve, rest), (resolve, c # t)) \<in> measure (\<lambda>(resolve, s). length s)"
    by simp
qed simp_all

definition rewriteTypeLinks :: "env \<Rightarrow> processor \<Rightarrow> string \<Rightarrow> string" where
  "rewriteTypeLinks e p markdownString =
     (let resolve = (\<lambda>linkValue.
            getLinkForKeyPath e linkValue (base p) (linkVersion (versions e) (version p)))
      in replaceMdLinks resolve (replaceCustomLinks resolve markdownString))"

text \<open>
  \<^verbatim>\<open>renderMarkdown\<close>: on \<^verbatim>\<open>undefined\<close> the call \<^verbatim>\<open>markdownString.replace\<close> inside
  \<^verbatim>\<open>rewriteTypeLinks\<close> throws a TypeError; otherwise the rewritten text goes to the
  renderer, under the link rule in force.
\<close>

definition renderMarkdown :: "env \<Rightarrow> link_rule \<Rightarrow> processor \<Rightarrow> string option \<Rightarrow> error + string" where
  "renderMarkdown e rule p v =
     (case v of
        None \<Rightarrow> Inl TypeError
      | Some markdownString \<Rightarrow> md_render e rule (rewriteTypeLinks e p markdownString))"

section \<open>filterInheritedMembers\<close>

text \<open>
  The arrow function \<^verbatim>\<open>filterInherited\<close>:
  \<^verbatim>\<open>member.inherits && member.inherits !== metadata.name\<close> makes it return false. An
  absent or empty \<^verbatim>\<open>inherits\<close> is falsy, so \<^verbatim>\<open>&&\<close> stops there.
\<close>

definition filterInherited :: "metadata \<Rightarrow> member \<Rightarrow> bool" where
  "filterInherited m x =
     (if truthy (inherits x) \<and> inherits x \<noteq> Some (type_name m) then False else True)"

text \<open>
  The three assignments in their order. \<^verbatim>\<open>metadata.properties.filter\<close> throws a
  TypeError on an absent list; the lists assigned before that stay filtered.
\<close>

definition filterInheritedMembers :: "metadata \<Rightarrow> error option \<times> metadata" where
  "filterInheritedMembers m =
     (case properties m of
        None \<Rightarrow> (Some TypeError, m)
      | Some ps \<Rightarrow>
          (let m1 = m\<lparr>properties := Some (filter (filterInherited m) ps)\<rparr> in
           case methods m1 of
             None \<Rightarrow> (Some TypeError, m1)
           | Some ms \<Rightarrow>
               (let m2 = m1\<lparr>methods := Some (filter (filterInherited m1) ms)\<rparr> in
                case events m2 of
                  None \<Rightarrow> (Some TypeError, m2)
                | Some es \<Rightarrow> (None, m2\<lparr>events := Some (filter (filterInherited m2) es)\<rparr>))))"

section \<open>sortByName\<close>

text \<open>
  \<^verbatim>\<open>unsortedArray.sort((a, b) => a.name.localeCompare(b.name))\<close>.
  \<^verbatim>\<open>Array.prototype.sort\<close> is the runtime's; ECMAScript specifies it as a stable sort
  by the comparator. It is modelled by the stable insertion sort: an element goes
  before the first element that the comparator does not put strictly before it.
\<close>

fun insertByName :: "(string \<Rightarrow> string \<Rightarrow> int) \<Rightarrow> member \<Rightarrow> member list \<Rightarrow> member list" where
  "insertByName cmp a [] = [a]"
| "insertByName cmp a (b # bs) =
     (if cmp (name a) (name b) \<le> 0 then a # b # bs else b # insertByName cmp a bs)"

fun sortMembers :: "(string \<Rightarrow> string \<Rightarrow> int) \<Rightarrow> member list \<Rightarrow> member list" where
  "sortMembers cmp [] = []"
| "sortMembers cmp (a # as) = insertByName cmp a (sortMembers cmp as)"

text \<open>\<^verbatim>\<open>if (!unsortedArray) { return; }\<close>: an absent list stays absent.\<close>

definition sortByName :: "env \<Rightarrow> member list option \<Rightarrow> member list option" where
  "sortByName e unsortedArray =
     (case unsortedArray of
        None \<Rightarrow> None
      | Some xs \<Rightarrow> Some (sortMembers (localeCompare e) xs))"

section \<open>transformMembersAndCollectHeaders\<close>

datatype memberType = Properties | Methods | Events

fun memberTypeKey :: "memberType \<Rightarrow> string" where
  "memberTypeKey Properties = ''properties''"
| "memberTypeKey Methods = ''methods''"
| "memberTypeKey Events = ''events''"

fun getMembers :: "memberType \<Rightarrow> metadata \<Rightarrow> member list option" where
  "getMembers Properties m = properties m"
| "getMembers Methods m = methods m"
| "getMembers Events m = events m"

fun setMembers :: "memberType \<Rightarrow> member list \<Rightarrow> metadata \<Rightarrow> metadata" where
  "setMembers Properties xs m = m\<lparr>properties := Some xs\<rparr>"
| "setMembers Methods xs m = m\<lparr>methods := Some xs\<rparr>"
| "setMembers Events xs m = m\<lparr>events := Some xs\<rparr>"

text \<open>
  \<^verbatim>\<open>memberType.charAt(0).toUpperCase() + memberType.slice(1)\<close>. The method is only
  called with the three words above, so \<^verbatim>\<open>toUpperCase\<close> is only applied to an ASCII
  lower-case letter, which it maps to its capital.
\<close>

definition upperCaseLetter :: "char \<Rightarrow> char" where
  "upperCaseLetter c =
     (case map_of (zip ''abcdefghijklmnopqrstuvwxyz'' ''ABCDEFGHIJKLMNOPQRSTUVWXYZ'') c of
        None \<Rightarrow> c | Some d \<Rightarrow> d)"

definition capitalize :: "string \<Rightarrow> string" where
  "capitalize s = (case s of [] \<Rightarrow> [] | c # t \<Rightarrow> upperCaseLetter c # t)"

definition groupHeader :: "memberType \<Rightarrow> header" where
  "groupHeader k =
     \<lparr>level = 2, title = capitalize (memberTypeKey k), slug = memberTypeKey k\<rparr>"

text \<open>The header pushed for a member: \<^verbatim>\<open>slug: memberMetadata.name.toLowerCase()\<close>.\<close>

definition memberHeader :: "env \<Rightarrow> member \<Rightarrow> header" where
  "memberHeader e x = \<lparr>level = 3, title = name x, slug = toLowerCase e (name x)\<rparr>"

text \<open>
  The five rendering steps of the \<^verbatim>\<open>forEach\<close> callback, each on one field of the
  member. \<open>r\<close> is \<^verbatim>\<open>this.renderMarkdown\<close>. A field is assigned only after its render
  call has returned.
\<close>

definition renderSummary :: "(string option \<Rightarrow> error + string) \<Rightarrow> member \<Rightarrow> error option \<times> member" where
  "renderSummary r x =
     (if truthy (summary x)
      then (case r (summary x) of
              Inl err \<Rightarrow> (Some err, x)
            | Inr html \<Rightarrow> (None, x\<lparr>summary := Some html\<rparr>))
      else (None, x))"

definition renderDescription :: "(string option \<Rightarrow> error + string) \<Rightarrow> member \<Rightarrow> error option \<times> member" where
  "renderDescription r x =
     (if truthy (description x)
      then (case r (description x) of
              Inl err \<Rightarrow> (Some err, x)
            | Inr html \<Rightarrow> (None, x\<lparr>description := Some html\<rparr>))
      else (None, x))"

text \<open>
  \<^verbatim>\<open>combinedExamplesMarkdown\<close>: the heading, then for each example
  \<^verbatim>\<open>`##### ${example.description}\n${example.code}`\<close>, with nothing between two examples.
\<close>

definition newline :: char where
  "newline = CHR 0x0A"

fun combineExamples :: "string \<Rightarrow> example list \<Rightarrow> string" where
  "combineExamples acc [] = acc"
| "combineExamples acc (ex # exs) =
     combineExamples (acc @ ''##### '' @ ex_description ex @ [newline] @ ex_code ex) exs"

text \<open>
  \<^verbatim>\<open>memberMetadata.examples && memberMetadata.examples.length\<close>: an absent field and an
  empty list are skipped. On a field that already is an HTML string, a non-empty
  string has a truthy length and no \<^verbatim>\<open>forEach\<close>: TypeError.
\<close>

definition renderExamples :: "(string option \<Rightarrow> error + string) \<Rightarrow> member \<Rightarrow> error option \<times> member" where
  "renderExamples r x =
     (case examples x of
        None \<Rightarrow> (None, x)
      | Some (ExampleList []) \<Rightarrow> (None, x)
      | Some (ExampleList (ex # exs)) \<Rightarrow>
          (case r (Some (combineExamples (''#### Examples'' @ [newline, newline]) (ex # exs))) of
             Inl err \<Rightarrow> (Some err, x)
           | Inr html \<Rightarrow> (None, x\<lparr>examples := Some (ExamplesHtml html)\<rparr>))
      | Some (ExamplesHtml h) \<Rightarrow> (if h = [] then (None, x) else (Some TypeError, x)))"

definition renderDeprecatedNotes :: "(string option \<Rightarrow> error + string) \<Rightarrow> member \<Rightarrow> error option \<times> member" where
  "renderDeprecatedNotes r x =
     (case deprecated x of
        None \<Rightarrow> (None, x)
      | Some d \<Rightarrow>
          if truthy (dep_notes d)
          then (case r (dep_notes d) of
                  Inl err \<Rightarrow> (Some err, x)
                | Inr html \<Rightarrow> (None, x\<lparr>deprecated := Some (d\<lparr>dep_notes := Some html\<rparr>)\<rparr>))
          else (None, x))"

definition renderReturnsSummary :: "(string option \<Rightarrow> error + string) \<Rightarrow> member \<Rightarrow> error option \<times> member" where
  "renderReturnsSummary r x =
     (case returns x of
        None \<Rightarrow> (None, x)
      | Some d \<Rightarrow>
          if truthy (returns_summary d)
          then (case r (returns_summary d) of
                  Inl err \<Rightarrow> (Some err, x)
                | Inr html \<Rightarrow> (None, x\<lparr>returns := Some (d\<lparr>returns_summary := Some html\<rparr>)\<rparr>))
          else (None, x))"

definition renderMember :: "(string option \<Rightarrow> error + string) \<Rightarrow> member \<Rightarrow> error option \<times> member" where
  "renderMember r =
     seqSteps [renderSummary r, renderDescription r, renderExamples r,
               renderDeprecatedNotes r, renderReturnsSummary r]"

text \<open>
  The \<^verbatim>\<open>forEach\<close> over \<^verbatim>\<open>membersMetadata\<close>. \<open>hc\<close> is \<^verbatim>\<open>this.hasConstants\<close>, \<open>hs\<close> the local
  array \<^verbatim>\<open>headers\<close>. The result is the exception if one was thrown, the list with the
  members rendered so far, and the two accumulators. A property whose name matches the
  constant pattern sets the flag and returns from the callback before the \<^verbatim>\<open>push\<close>.
\<close>

fun transformLoop ::
  "env \<Rightarrow> (member \<Rightarrow> error option \<times> member) \<Rightarrow> memberType \<Rightarrow> member list \<Rightarrow> bool \<Rightarrow>
   header list \<Rightarrow> error option \<times> member list \<times> bool \<times> header list" where
  "transformLoop e f k [] hc hs = (None, [], hc, hs)"
| "transformLoop e f k (x # xs) hc hs =
     (case f x of
        (Some err, x') \<Rightarrow> (Some err, x' # xs, hc, hs)
      | (None, x') \<Rightarrow>
          (if k = Properties \<and> constantNamingPattern_test (name x')
           then (case transformLoop e f k xs True hs of
                   (err, xs', hc', hs') \<Rightarrow> (err, x' # xs', hc', hs'))
           else (case transformLoop e f k xs hc (hs @ [memberHeader e x']) of
                   (err, xs', hc', hs') \<Rightarrow> (err, x' # xs', hc', hs'))))"

text \<open>
  \<^verbatim>\<open>transformMembersAndCollectHeaders(memberType, metadata)\<close>: nothing happens on an
  absent or empty list. After the loop, when \<^verbatim>\<open>headers\<close> is not empty, the group header
  and then \<^verbatim>\<open>headers\<close> are appended to \<^verbatim>\<open>this.additionalHeaders\<close>.
\<close>

definition transformMembersAndCollectHeaders :: "env \<Rightarrow> memberType \<Rightarrow> pstate \<Rightarrow> error option \<times> pstate" where
  "transformMembersAndCollectHeaders e k s =
     (case getMembers k (md s) of
        None \<Rightarrow> (None, s)
      | Some [] \<Rightarrow> (None, s)
      | Some (x # xs) \<Rightarrow>
          (case transformLoop e (renderMember (renderMarkdown e (link_open s) (proc s))) k (x # xs)
                  (hasConstants (proc s)) [] of
             (err, xs', hc', hs') \<Rightarrow>
               (let s1 = s\<lparr>md := setMembers k xs' (md s),
                           proc := (proc s)\<lparr>hasConstants := hc'\<rparr>\<rparr> in
                case err of
                  Some thrown \<Rightarrow> (Some thrown, s1)
                | None \<Rightarrow>
                    (None,
                     if hs' \<noteq> []
                     then s1\<lparr>proc := (proc s1)\<lparr>additionalHeaders :=
                                additionalHeaders (proc s1) @ [groupHeader k] @ hs'\<rparr>\<rparr>
                     else s1))))"

section \<open>transoformMetadataAndCollectHeaders\<close>

text \<open>\<^verbatim>\<open>delete metadata.description; delete metadata.examples;\<close>\<close>

definition deleteDescriptionAndExamples :: "pstate \<Rightarrow> error option \<times> pstate" where
  "deleteDescriptionAndExamples s =
     (None, s\<lparr>md := (md s)\<lparr>type_description := None, type_examples := None\<rparr>\<rparr>)"

definition sortProperties :: "env \<Rightarrow> pstate \<Rightarrow> error option \<times> pstate" where
  "sortProperties e s = (None, s\<lparr>md := (md s)\<lparr>properties := sortByName e (properties (md s))\<rparr>\<rparr>)"

definition sortMethods :: "env \<Rightarrow> pstate \<Rightarrow> error option \<times> pstate" where
  "sortMethods e s = (None, s\<lparr>md := (md s)\<lparr>methods := sortByName e (methods (md s))\<rparr>\<rparr>)"

definition setLinkOpen :: "link_rule \<Rightarrow> pstate \<Rightarrow> error option \<times> pstate" where
  "setLinkOpen rule s = (None, s\<lparr>link_open := rule\<rparr>)"

text \<open>\<^verbatim>\<open>metadata.summary = this.renderMarkdown(metadata.summary)\<close>, with no test before it.\<close>

definition renderTypeSummary :: "env \<Rightarrow> pstate \<Rightarrow> error option \<times> pstate" where
  "renderTypeSummary e s =
     (case renderMarkdown e (link_open s) (proc s) (type_summary (md s)) of
        Inl err \<Rightarrow> (Some err, s)
      | Inr html \<Rightarrow> (None, s\<lparr>md := (md s)\<lparr>type_summary := Some html\<rparr>\<rparr>))"

text \<open>
  The body of \<^verbatim>\<open>transoformMetadataAndCollectHeaders\<close>, statement by statement. The
  constant \<^verbatim>\<open>vueRouterLinkRule\<close> holds the rule found on entry; the statement that
  assigns it back is the tenth, and is reached only when none of the statements before
  it has thrown: the source has no \<^verbatim>\<open>try\<close>.
\<close>

definition transoformMetadataAndCollectHeaders :: "env \<Rightarrow> pstate \<Rightarrow> error option \<times> pstate" where
  "transoformMetadataAndCollectHeaders e s =
     (let vueRouterLinkRule = link_open s in
      seqSteps
        [deleteDescriptionAndExamples,
         onMetadata filterInheritedMembers,
         sortProperties e,
         sortMethods e,
         setLinkOpen PassThrough,
         renderTypeSummary e,
         transformMembersAndCollectHeaders e Properties,
         transformMembersAndCollectHeaders e Methods,
         transformMembersAndCollectHeaders e Events,
         setLinkOpen vueRouterLinkRule,
         onMetadata splitPropertiesAndConstants] s)"

section \<open>appendAdditionalHeaders\<close>

definition constantsHeader :: header where
  "constantsHeader = \<lparr>level = 2, title = ''Constants'', slug = ''constants''\<rparr>"

text \<open>
  \<^verbatim>\<open>page.headers = (page.headers || []).concat(this.additionalHeaders)\<close>, then the push
  of the Constants header when \<^verbatim>\<open>this.hasConstants\<close>. The processor is only read.
\<close>

definition appendAdditionalHeaders :: "processor \<Rightarrow> page \<Rightarrow> page" where
  "appendAdditionalHeaders p pg =
     (let hs = (case headers pg of None \<Rightarrow> [] | Some h \<Rightarrow> h) @ additionalHeaders p in
      pg\<lparr>headers := Some (if hasConstants p then hs @ [constantsHeader] else hs)\<rparr>)"

section \<open>Metadata store and processor cache\<close>

text \<open>
  Modelled from the spec: \<^verbatim>\<open>metadataService.findMetadata\<close> of \<^verbatim>\<open>./lib/utils/metadata\<close>,
  which is not among the sources. The spec: exact-name lookup within a version; returns
  "not found" rather than failing.
\<close>

definition findMetadata :: "site \<Rightarrow> string \<Rightarrow> string \<Rightarrow> metadata option" where
  "findMetadata st typeName v =
     (case metadataStore st v of None \<Rightarrow> None | Some tbl \<Rightarrow> map_of tbl typeName)"

text \<open>
  The pipeline mutates the object that \<open>findMetadata\<close> returned; in the model the new
  value is stored under the key it was found at.
\<close>

definition storeMetadata :: "string \<Rightarrow> string \<Rightarrow> metadata \<Rightarrow> site \<Rightarrow> site" where
  "storeMetadata typeName v m st =
     (case metadataStore st v of
        None \<Rightarrow> st
      | Some tbl \<Rightarrow>
          st\<lparr>metadataStore := (metadataStore st)
                (v \<mapsto> map (\<lambda>(k, x). if k = typeName then (k, m) else (k, x)) tbl)\<rparr>)"

text \<open>
  The names of the properties of \<^verbatim>\<open>Object.prototype\<close>, which every plain object has
  without owning them (ECMAScript and its Annex B, as in Node.js). Their values are
  built-in functions, and for \<^verbatim>\<open>__proto__\<close> the prototype itself: all of them truthy,
  none of them a processor.
\<close>

definition objectPrototypeKey :: "string \<Rightarrow> bool" where
  "objectPrototypeKey k =
     (k \<in> set [''constructor'', ''__defineGetter__'', ''__defineSetter__'', ''hasOwnProperty'',
               ''__lookupGetter__'', ''__lookupSetter__'', ''isPrototypeOf'',
               ''propertyIsEnumerable'', ''toString'', ''valueOf'', ''__proto__'',
               ''toLocaleString''])"

text \<open>
  The value of \<^verbatim>\<open>processed[version] && processed[version][typeName]\<close> for a version that
  is not a name of \<^verbatim>\<open>Object.prototype\<close>: undefined when \<^verbatim>\<open>processed\<close> has no object for
  the version; else the processor that object owns under the type name; else, for a
  type name of \<^verbatim>\<open>Object.prototype\<close>, the member the object inherits; else undefined.
\<close>

datatype cacheEntry = NoEntry | Entry processor | InheritedMember

definition lookupProcessed :: "site \<Rightarrow> string \<Rightarrow> string \<Rightarrow> cacheEntry" where
  "lookupProcessed st v typeName =
     (case processed st v of
        None \<Rightarrow> NoEntry
      | Some tbl \<Rightarrow>
          (case tbl typeName of
             Some p \<Rightarrow> Entry p
           | None \<Rightarrow> if objectPrototypeKey typeName then InheritedMember else NoEntry))"

text \<open>
  \<^verbatim>\<open>if (!processed[version]) { processed[version] = {} }\<close>
  \<^verbatim>\<open>processed[version][typeName] = metadataProcessor\<close>
  For a version that is not a name of \<^verbatim>\<open>Object.prototype\<close> and a type name other than
  \<^verbatim>\<open>__proto__\<close> the assignment makes an own property of the object of the version.
\<close>

definition storeProcessed :: "string \<Rightarrow> string \<Rightarrow> processor \<Rightarrow> site \<Rightarrow> site" where
  "storeProcessed v typeName p st =
     st\<lparr>processed := (processed st)
          (v \<mapsto> (case processed st v of None \<Rightarrow> Map.empty | Some tbl \<Rightarrow> tbl)(typeName \<mapsto> p))\<rparr>"

section \<open>extendPageData\<close>

text \<open>
  \<^verbatim>\<open>/^(\/[\w.\-]+)?\/api\//.test(page.regularPath)\<close>: the path starts with \<^verbatim>\<open>/api/\<close>, or
  with a slash, a non-empty run of word characters, dots and dashes, and then
  \<^verbatim>\<open>/api/\<close>. The run cannot hold a slash, so it ends where the next slash stands.
\<close>

definition wordChar :: "char \<Rightarrow> bool" where
  "wordChar c =
     (c \<in> set ''abcdefghijklmnopqrstuvwxyzABCDEFGHIJKLMNOPQRSTUVWXYZ0123456789_'')"

definition prefixChar :: "char \<Rightarrow> bool" where
  "prefixChar c = (wordChar c \<or> c = CHR ''.'' \<or> c = CHR ''-'')"

definition apiPathPattern_test :: "string \<Rightarrow> bool" where
  "apiPathPattern_test s =
     (take 5 s = ''/api/'' \<or>
      (case s of
         [] \<Rightarrow> False
       | c # t \<Rightarrow>
           c = CHR ''/'' \<and> takeWhile prefixChar t \<noteq> [] \<and>
           take 5 (dropWhile prefixChar t) = ''/api/''))"

text \<open>\<^verbatim>\<open>page.frontmatter.metadataKey || page.title\<close> and \<^verbatim>\<open>page.version || 'next'\<close>\<close>

definition pageTypeName :: "page \<Rightarrow> string" where
  "pageTypeName pg =
     (case fm_metadataKey pg of
        None \<Rightarrow> page_title pg
      | Some k \<Rightarrow> if k \<noteq> [] then k else page_title pg)"

definition pageVersion :: "page \<Rightarrow> string" where
  "pageVersion pg =
     (case page_version pg of
        None \<Rightarrow> ''next''
      | Some v \<Rightarrow> if v \<noteq> [] then v else ''next'')"

text \<open>
  Where the plugin stays within its own objects: the version is not a name of
  \<^verbatim>\<open>Object.prototype\<close> and the type name is not \<^verbatim>\<open>__proto__\<close>. For another version
  \<^verbatim>\<open>processed[version]\<close> is a built-in function or \<^verbatim>\<open>Object.prototype\<close> itself, and line
  85 assigns to it; for the type name \<^verbatim>\<open>__proto__\<close> line 85 replaces the prototype of
  the object of the version.
\<close>

definition ownKeys :: "string \<Rightarrow> string \<Rightarrow> bool" where
  "ownKeys v typeName = (\<not> objectPrototypeKey v \<and> typeName \<noteq> ''__proto__'')"

text \<open>
  \<^verbatim>\<open>extendPageData(page)\<close>. The result is the exception thrown, if any, the page and the
  site as they are when the call ends.
  \<^item> Lines 50 to 68 do not touch the cache: a page outside the API section is returned
    as it is, a page whose metadata is not found has layout and sidebar depth set.
  \<^item> From line 71 on the cache is read. When the keys are not \<open>ownKeys\<close>, or the
    prototypes are no longer intact, the outcome is the parameter \<open>outsideModel\<close>, and
    the prototypes count as touched from then on.
  \<^item> When the cache yields an inherited member of \<^verbatim>\<open>Object.prototype\<close>, the value is
    truthy, line 73 calls its \<^verbatim>\<open>appendAdditionalHeaders\<close>, which is undefined:
    TypeError, with the page marked and the site untouched.
  \<^item> When the pipeline throws (line 79), lines 80 to 85 are not reached: the processor
    is not stored, and the metadata object and the link rule stay as the pipeline left
    them.
\<close>

definition extendPageData :: "env \<Rightarrow> page \<Rightarrow> site \<Rightarrow> error option \<times> page \<times> site" where
  "extendPageData e pg st =
     (if \<not> apiPathPattern_test (regularPath pg) then (None, pg, st)
      else
        (let pg1 = pg\<lparr>fm_layout := Some ''ApiLayout'', fm_sidebarDepth := Some 0\<rparr>;
             typeName = pageTypeName pg;
             v = pageVersion pg in
         case findMetadata st typeName v of
           None \<Rightarrow> (None, pg1, st)
         | Some m \<Rightarrow>
             (let pg2 = pg1\<lparr>page_metadataKey := Some typeName,
                             fm_pageClass := Some ''api-page''\<rparr> in
              if \<not> prototypesIntact st \<or> \<not> ownKeys v typeName
              then (case outsideModel e pg2 st of
                      (err, pg', st') \<Rightarrow> (err, pg', st'\<lparr>prototypesIntact := False\<rparr>))
              else
                case lookupProcessed st v typeName of
                  Entry metadataProcessor \<Rightarrow>
                    (None, appendAdditionalHeaders metadataProcessor pg2, st)
                | InheritedMember \<Rightarrow> (Some TypeError, pg2, st)
                | NoEntry \<Rightarrow>
                    (case transoformMetadataAndCollectHeaders e
                            \<lparr>md = m, proc = newMetadataProcessor e v,
                             link_open = renderer_link_open st\<rparr> of
                       (Some err, s') \<Rightarrow>
                         (Some err, pg2,
                          (storeMetadata typeName v (md s') st)
                            \<lparr>renderer_link_open := link_open s'\<rparr>)
                     | (None, s') \<Rightarrow>
                         (None, appendAdditionalHeaders (proc s') pg2,
                          storeProcessed v typeName (proc s')
                            ((storeMetadata typeName v (md s') st)
                               \<lparr>renderer_link_open := link_open s'\<rparr>))))))"

section \<open>findMetadataWithLowerCasedKey\<close>

text \<open>
  The \<^verbatim>\<open>for (let typeName in typesMetadata)\<close> loop: the first key whose lower-cased form
  is identical to the argument decides. The argument is compared as it was passed.
\<close>

fun findLowerCasedLoop :: "env \<Rightarrow> (string \<times> metadata) list \<Rightarrow> string \<Rightarrow> metadata option" where
  "findLowerCasedLoop e [] lowerCasedTypeName = None"
| "findLowerCasedLoop e ((typeName, m) # rest) lowerCasedTypeName =
     (if toLowerCase e typeName = lowerCasedTypeName then Some m
      else findLowerCasedLoop e rest lowerCasedTypeName)"

text \<open>
  For a version that is not in the store \<^verbatim>\<open>typesMetadata\<close> is undefined, the loop has
  no iteration and the function returns null.
\<close>

definition findMetadataWithLowerCasedKey :: "env \<Rightarrow> site \<Rightarrow> string \<Rightarrow> string \<Rightarrow> metadata option" where
  "findMetadataWithLowerCasedKey e st lowerCasedTypeName v =
     (case metadataStore st v of
        None \<Rightarrow> None
      | Some typesMetadata \<Rightarrow> findLowerCasedLoop e typesMetadata lowerCasedTypeName)"

section \<open>Notions used in the statements\<close>

text \<open>
  A member gets a header of its own unless it is a property whose name matches the
  constant pattern.
\<close>

definition headed :: "memberType \<Rightarrow> member \<Rightarrow> bool" where
  "headed k x = (\<not> (k = Properties \<and> constantNamingPattern_test (name x)))"

text \<open>The headers one kind contributes: nothing, or the group header and one per member.\<close>

definition sectionHeaders :: "env \<Rightarrow> memberType \<Rightarrow> member list \<Rightarrow> header list" where
  "sectionHeaders e k xs = (if xs = [] then [] else groupHeader k # map (memberHeader e) xs)"

text \<open>The member as the pipeline leaves it, rendered under the pass-through rule.\<close>

definition renderedMember :: "env \<Rightarrow> processor \<Rightarrow> member \<Rightarrow> member" where
  "renderedMember e p x = snd (renderMember (renderMarkdown e PassThrough p) x)"

text \<open>
  The order of the comparator on names, and what \<^verbatim>\<open>Array.prototype.sort\<close> asks of a
  comparator for its result to be defined: any two names are comparable, and the order
  is transitive.
\<close>

definition nameLe :: "(string \<Rightarrow> string \<Rightarrow> int) \<Rightarrow> member \<Rightarrow> member \<Rightarrow> bool" where
  "nameLe cmp a b = (cmp (name a) (name b) \<le> 0)"

definition consistentComparator :: "(string \<Rightarrow> string \<Rightarrow> int) \<Rightarrow> bool" where
  "consistentComparator cmp =
     ((\<forall>a b. cmp a b \<le> 0 \<or> cmp b a \<le> 0) \<and>
      (\<forall>a b c. cmp a b \<le> 0 \<longrightarrow> cmp b c \<le> 0 \<longrightarrow> cmp a c \<le> 0))"

text \<open>
  The host calls \<^verbatim>\<open>extendPageData\<close> once for every page, one call after the other; the
  site a call leaves is the site the next call finds, whether the call threw or not.
\<close>

fun extendPages :: "env \<Rightarrow> page list \<Rightarrow> site \<Rightarrow> site" where
  "extendPages e [] st = st"
| "extendPages e (pg # pgs) st = extendPages e pgs (snd (snd (extendPageData e pg st)))"

text \<open>
  The page as \<^verbatim>\<open>extendPageData\<close> has marked it when it reaches the processor cache:
  layout, sidebar depth, metadata key and page class are set.
\<close>

definition apiPage :: "page \<Rightarrow> page" where
  "apiPage pg =
     pg\<lparr>fm_layout := Some ''ApiLayout'', fm_sidebarDepth := Some 0,
        page_metadataKey := Some (pageTypeName pg), fm_pageClass := Some ''api-page''\<rparr>"

section \<open>Example inputs\<close>

text \<open>A comparator for the examples: the order of the character codes.\<close>

fun compareStrings :: "string \<Rightarrow> string \<Rightarrow> int" where
  "compareStrings [] [] = 0"
| "compareStrings [] (b # bs) = - 1"
| "compareStrings (a # as) [] = 1"
| "compareStrings (a # as) (b # bs) =
     (if (of_char a :: nat) < of_char b then - 1
      else if (of_char b :: nat) < of_char a then 1
      else compareStrings as bs)"

text \<open>
  A lower-casing for the examples: that of the ASCII letters, which is what
  \<^verbatim>\<open>toLowerCase\<close> does to a string of ASCII characters.
\<close>

definition asciiToLowerCase :: "string \<Rightarrow> string" where
  "asciiToLowerCase s =
     map (\<lambda>c. case map_of (zip ''ABCDEFGHIJKLMNOPQRSTUVWXYZ'' ''abcdefghijklmnopqrstuvwxyz'') c of
                None \<Rightarrow> c | Some d \<Rightarrow> d) s"

text \<open>
  A renderer that wraps its input in a paragraph, and a resolver that knows the one
  key-path \<^verbatim>\<open>Foo.bar\<close> and puts the version it is given into the path. One version,
  \<^verbatim>\<open>1.0\<close>, is declared. Where the runtime's prototypes decide, the example does
  nothing.
\<close>

definition exampleEnv :: env where
  "exampleEnv =
     \<lparr>md_render = (\<lambda>rule s. Inr (''<p>'' @ s @ ''</p>'')),
      getLinkForKeyPath = (\<lambda>k b v.
         if k = ''Foo.bar''
         then Some \<lparr>link_name = ''Foo.bar'',
                    link_path = b @ (case v of None \<Rightarrow> [] | Some x \<Rightarrow> x @ ''/'') @ ''api/Foo.html#bar''\<rparr>
         else None),
      localeCompare = compareStrings,
      toLowerCase = asciiToLowerCase,
      versions = [''1.0''],
      context_base = ''/'',
      outsideModel = (\<lambda>pg st. (None, pg, st))\<rparr>"

text \<open>The same, with a renderer that throws on the summary of the method \<^verbatim>\<open>hide\<close>.\<close>

definition throwingEnv :: env where
  "throwingEnv =
     exampleEnv\<lparr>md_render := (\<lambda>rule s. if s = ''The hide'' then Inl RenderError
                                        else Inr (''<p>'' @ s @ ''</p>''))\<rparr>"

text \<open>
  The same, with a resolver that knows the key-path \<^verbatim>\<open>Foo.bar\<close> and also the path it
  resolves to, as a link to the guide \<^verbatim>\<open>/guide/bar.html\<close>.
\<close>

definition chainEnv :: env where
  "chainEnv =
     exampleEnv\<lparr>getLinkForKeyPath := (\<lambda>k b v.
         if k = ''Foo.bar''
         then Some \<lparr>link_name = ''Foo.bar'', link_path = ''/api/Foo.html#bar''\<rparr>
         else if k = ''/api/Foo.html#bar''
         then Some \<lparr>link_name = ''bar'', link_path = ''/guide/bar.html''\<rparr>
         else None)\<rparr>"

definition exampleMember :: "string \<Rightarrow> string option \<Rightarrow> member" where
  "exampleMember n inh =
     \<lparr>name = n, summary = Some (''The '' @ n), description = None, examples = None,
      deprecated = None, returns = None, inherits = inh\<rparr>"

definition exampleMetadata :: metadata where
  "exampleMetadata =
     \<lparr>type_name = ''Foo'', type_summary = Some ''See <Foo.bar>'',
      type_description = Some ''A longer text'', type_examples = None,
      properties = Some [exampleMember ''title'' None, exampleMember ''MAX_SIZE'' (Some ''Foo''),
                         exampleMember ''id'' (Some ''Proxy'')],
      methods = Some [exampleMember ''show'' None, exampleMember ''hide'' None],
      events = Some [exampleMember ''click'' None, exampleMember ''change'' None],
      constants = None\<rparr>"

text \<open>The type of the header example: one constant, one property, nothing else.\<close>

definition exampleTwoProperties :: metadata where
  "exampleTwoProperties =
     exampleMetadata\<lparr>type_name := ''Bar'',
                     properties := Some [exampleMember ''MAX_SIZE'' None, exampleMember ''title'' None],
                     methods := Some [], events := Some []\<rparr>"

definition exampleState :: "metadata \<Rightarrow> pstate" where
  "exampleState m = \<lparr>md = m, proc = newMetadataProcessor exampleEnv ''1.0'', link_open = RouterLink\<rparr>"

definition examplePage :: page where
  "examplePage =
     \<lparr>regularPath = ''/api/foo.html'', page_title = ''Foo'', page_version = Some ''1.0'',
      page_metadataKey = None, fm_metadataKey = None, fm_layout = None,
      fm_sidebarDepth = None, fm_pageClass = None, headers = None\<rparr>"

definition exampleSite :: site where
  "exampleSite =
     \<lparr>metadataStore = (\<lambda>v. if v = ''1.0''
                            then Some [(''Foo'', exampleMetadata), (''Bar'', exampleTwoProperties)]
                            else None),
      processed = Map.empty,
      renderer_link_open = RouterLink,
      prototypesIntact = True\<rparr>"

text \<open>A site that documents, besides \<^verbatim>\<open>Foo\<close>, a type with the name \<^verbatim>\<open>toString\<close>.\<close>

definition toStringSite :: site where
  "toStringSite =
     exampleSite\<lparr>metadataStore := (\<lambda>v. if v = ''1.0''
                            then Some [(''Foo'', exampleMetadata),
                                       (''toString'', exampleMetadata\<lparr>type_name := ''toString''\<rparr>)]
                            else None)\<rparr>"

section \<open>Lemmas: sequences of steps, rendering, the loops\<close>

lemma seqSteps_Cons_None:
  "seqSteps (f # fs) s = (None, s') \<longleftrightarrow> (\<exists>s1. f s = (None, s1) \<and> seqSteps fs s1 = (None, s'))"
  by (auto split: prod.splits option.splits)

lemma seqSteps_keeps:
  assumes "\<And>f s e s'. f \<in> set fs \<Longrightarrow> f s = (e, s') \<Longrightarrow> g s' = g s"
    and "seqSteps fs s = (e, s')"
  shows "g s' = g s"
  using assms
proof (induction fs arbitrary: s)
  case Nil
  then show ?case by simp
next
  case (Cons f fs)
  obtain e1 s1 where f: "f s = (e1, s1)" by (cases "f s")
  have g1: "g s1 = g s" using Cons.prems(1) [of f s e1 s1] f by simp
  show ?case
  proof (cases e1)
    case None
    with f Cons.prems(2) have "seqSteps fs s1 = (e, s')" by simp
    then have "g s' = g s1" using Cons.IH Cons.prems(1) by (metis list.set_intros(2))
    with g1 show ?thesis by simp
  next
    case (Some a)
    with f Cons.prems(2) have "s' = s1" by simp
    with g1 show ?thesis by simp
  qed
qed

lemma renderSummary_keeps: "renderSummary r x = (e, x') \<Longrightarrow> name x' = name x \<and> inherits x' = inherits x"
  by (auto simp: renderSummary_def split: if_splits sum.splits)
lemma renderDescription_keeps: "renderDescription r x = (e, x') \<Longrightarrow> name x' = name x \<and> inherits x' = inherits x"
  by (auto simp: renderDescription_def split: if_splits sum.splits)
lemma renderExamples_keeps: "renderExamples r x = (e, x') \<Longrightarrow> name x' = name x \<and> inherits x' = inherits x"
  by (auto simp: renderExamples_def split: if_splits sum.splits option.splits examples.splits list.splits)
lemma renderDeprecatedNotes_keeps: "renderDeprecatedNotes r x = (e, x') \<Longrightarrow> name x' = name x \<and> inherits x' = inherits x"
  by (auto simp: renderDeprecatedNotes_def split: if_splits sum.splits option.splits)
lemma renderReturnsSummary_keeps: "renderReturnsSummary r x = (e, x') \<Longrightarrow> name x' = name x \<and> inherits x' = inherits x"
  by (auto simp: renderReturnsSummary_def split: if_splits sum.splits option.splits)

lemma renderMember_name: "renderMember r x = (e, x') \<Longrightarrow> name x' = name x"
  unfolding renderMember_def
  by (erule seqSteps_keeps [rotated])
     (auto dest: renderSummary_keeps renderDescription_keeps renderExamples_keeps
        renderDeprecatedNotes_keeps renderReturnsSummary_keeps)

lemma memberHeader_name: "name a = name b \<Longrightarrow> memberHeader e a = memberHeader e b"
  by (simp add: memberHeader_def)

lemma transformLoop_None:
  assumes "transformLoop e (renderMember r) k xs hc hs = (None, xs', hc', hs')"
  shows "xs' = map (\<lambda>x. snd (renderMember r x)) xs \<and>
         (\<forall>x\<in>set xs. fst (renderMember r x) = None) \<and>
         hc' = (hc \<or> (\<exists>x\<in>set xs. \<not> headed k x)) \<and>
         hs' = hs @ map (memberHeader e) (filter (headed k) xs)"
  using assms
proof (induction xs arbitrary: hc hs xs' hc' hs')
  case Nil
  then show ?case by simp
next
  case (Cons x xs)
  obtain e1 x1 where f: "renderMember r x = (e1, x1)" by (cases "renderMember r x")
  have n: "name x1 = name x" using renderMember_name [OF f] .
  from Cons.prems f have e1: "e1 = None"
    by (auto split: option.splits)
  show ?case
  proof (cases "headed k x")
    case True
    with Cons.prems f e1 n obtain ys where
      rec: "transformLoop e (renderMember r) k xs hc (hs @ [memberHeader e x1]) = (None, ys, hc', hs')"
      and xs': "xs' = x1 # ys"
      by (auto simp: headed_def split: prod.splits if_splits)
    from Cons.IH [OF rec] True f e1 xs' memberHeader_name [OF n] show ?thesis
      by simp
  next
    case False
    with Cons.prems f e1 n obtain ys where
      rec: "transformLoop e (renderMember r) k xs True hs = (None, ys, hc', hs')"
      and xs': "xs' = x1 # ys"
      by (auto simp: headed_def split: prod.splits if_splits)
    from Cons.IH [OF rec] False f e1 xs' show ?thesis
      by simp
  qed
qed

lemma splitLoop_filter:
  "splitLoop ps props cs =
     (props @ filter (\<lambda>p. \<not> constantNamingPattern_test (name p)) ps,
      cs @ filter (\<lambda>p. constantNamingPattern_test (name p)) ps)"
  by (induction ps arbitrary: props cs) simp_all

lemma splitPropertiesAndConstants_Some:
  "properties m = Some ps \<Longrightarrow>
   splitPropertiesAndConstants m =
     (None, m\<lparr>properties := Some (filter (\<lambda>p. \<not> constantNamingPattern_test (name p)) ps),
              constants := Some (filter (\<lambda>p. constantNamingPattern_test (name p)) ps)\<rparr>)"
  by (simp add: splitPropertiesAndConstants_def splitLoop_filter)

lemma rewriteTypeLinks_proc:
  "base p = base p' \<Longrightarrow> version p = version p' \<Longrightarrow> rewriteTypeLinks e p s = rewriteTypeLinks e p' s"
  by (simp add: rewriteTypeLinks_def)

lemma renderMarkdown_proc:
  "base p = base p' \<Longrightarrow> version p = version p' \<Longrightarrow> renderMarkdown e rule p = renderMarkdown e rule p'"
  by (auto simp: renderMarkdown_def fun_eq_iff rewriteTypeLinks_proc [of p p'] split: option.splits)

lemma filterInherited_type_name:
  "type_name m = type_name m' \<Longrightarrow> filterInherited m = filterInherited m'"
  by (simp add: filterInherited_def fun_eq_iff)

lemma filterInheritedMembers_Some:
  assumes "properties m = Some ps" "methods m = Some ms" "events m = Some es"
  shows "filterInheritedMembers m =
     (None, m\<lparr>properties := Some (filter (filterInherited m) ps),
              methods := Some (filter (filterInherited m) ms),
              events := Some (filter (filterInherited m) es)\<rparr>)"
  using assms
  by (simp add: filterInheritedMembers_def Let_def
        filterInherited_type_name [of "m\<lparr>properties := Some (filter (filterInherited m) ps)\<rparr>" m]
        filterInherited_type_name [of "m\<lparr>properties := Some (filter (filterInherited m) ps),
              methods := Some (filter (filterInherited m) ms)\<rparr>" m])

lemma filterInheritedMembers_None:
  assumes "filterInheritedMembers m = (None, m')"
  shows "\<exists>ps ms es. properties m = Some ps \<and> methods m = Some ms \<and> events m = Some es"
  using assms
  by (auto simp: filterInheritedMembers_def Let_def split: option.splits)

lemma transformMembers_None:
  assumes "transformMembersAndCollectHeaders e k s = (None, s')"
    and "getMembers k (md s) = Some xs"
  shows "md s' = setMembers k (map (\<lambda>x. snd (renderMember (renderMarkdown e (link_open s) (proc s)) x)) xs) (md s) \<and>
         proc s' = (proc s)\<lparr>additionalHeaders := additionalHeaders (proc s) @ sectionHeaders e k (filter (headed k) xs),
                             hasConstants := (hasConstants (proc s) \<or> (\<exists>x\<in>set xs. \<not> headed k x))\<rparr> \<and>
         link_open s' = link_open s \<and>
         (\<forall>x\<in>set xs. fst (renderMember (renderMarkdown e (link_open s) (proc s)) x) = None)"
proof (cases xs)
  case Nil
  with assms have "s' = s"
    by (simp add: transformMembersAndCollectHeaders_def)
  with Nil assms(2) show ?thesis
    by (cases k) (simp_all add: sectionHeaders_def)
next
  case (Cons y ys)
  let ?r = "renderMember (renderMarkdown e (link_open s) (proc s))"
  obtain err xs' hc' hs' where
    loop: "transformLoop e ?r k xs (hasConstants (proc s)) [] = (err, xs', hc', hs')"
    by (metis prod_cases4)
  from assms Cons loop have err: "err = None"
    by (auto simp: transformMembersAndCollectHeaders_def Let_def split: option.splits)
  note facts = transformLoop_None [OF loop [unfolded err]]
  from assms Cons loop err have
    s': "s' = (if hs' \<noteq> []
              then (s\<lparr>md := setMembers k xs' (md s), proc := (proc s)\<lparr>hasConstants := hc'\<rparr>\<rparr>)
                     \<lparr>proc := (proc s)\<lparr>hasConstants := hc',
                         additionalHeaders := additionalHeaders (proc s) @ [groupHeader k] @ hs'\<rparr>\<rparr>
              else s\<lparr>md := setMembers k xs' (md s), proc := (proc s)\<lparr>hasConstants := hc'\<rparr>\<rparr>)"
    by (auto simp: transformMembersAndCollectHeaders_def Let_def)
  show ?thesis
    using facts s' by (auto simp: sectionHeaders_def)
qed

lemma renderedMember_name [simp]: "name (renderedMember e p x) = name x"
  unfolding renderedMember_def
  by (metis renderMember_name surjective_pairing)

lemma set_insertByName [simp]: "set (insertByName cmp a xs) = insert a (set xs)"
  by (induction xs) auto

lemma set_sortMembers [simp]: "set (sortMembers cmp xs) = set xs"
  by (induction xs) auto

lemma onMetadata_None:
  "onMetadata f s = (None, s') \<longleftrightarrow> (\<exists>m'. f (md s) = (None, m') \<and> s' = s\<lparr>md := m'\<rparr>)"
  by (auto simp: onMetadata_def split: prod.splits)

lemma renderTypeSummary_None:
  "renderTypeSummary e s = (None, s') \<longleftrightarrow>
     (\<exists>html. renderMarkdown e (link_open s) (proc s) (type_summary (md s)) = Inr html \<and>
             s' = s\<lparr>md := (md s)\<lparr>type_summary := Some html\<rparr>\<rparr>)"
  by (auto simp: renderTypeSummary_def split: sum.splits)

lemma pipeline_success:
  assumes run: "transoformMetadataAndCollectHeaders e s = (None, s')"
  obtains ps ms es html where
    "properties (md s) = Some ps" "methods (md s) = Some ms" "events (md s) = Some es"
    "renderMarkdown e PassThrough (proc s) (type_summary (md s)) = Inr html"
    "properties (md s') = Some (filter (\<lambda>x. \<not> constantNamingPattern_test (name x))
        (map (renderedMember e (proc s))
          (sortMembers (localeCompare e) (filter (filterInherited (md s)) ps))))"
    "constants (md s') = Some (filter (\<lambda>x. constantNamingPattern_test (name x))
        (map (renderedMember e (proc s))
          (sortMembers (localeCompare e) (filter (filterInherited (md s)) ps))))"
    "methods (md s') = Some (map (renderedMember e (proc s))
          (sortMembers (localeCompare e) (filter (filterInherited (md s)) ms)))"
    "events (md s') = Some (map (renderedMember e (proc s)) (filter (filterInherited (md s)) es))"
    "type_summary (md s') = Some html" "type_name (md s') = type_name (md s)"
    "type_description (md s') = None" "type_examples (md s') = None"
    "hasConstants (proc s') =
       (hasConstants (proc s) \<or>
        (\<exists>x\<in>set ps. filterInherited (md s) x \<and> constantNamingPattern_test (name x)))"
    "additionalHeaders (proc s') = additionalHeaders (proc s) @
       sectionHeaders e Properties (filter (\<lambda>x. \<not> constantNamingPattern_test (name x))
          (sortMembers (localeCompare e) (filter (filterInherited (md s)) ps))) @
       sectionHeaders e Methods (sortMembers (localeCompare e) (filter (filterInherited (md s)) ms)) @
       sectionHeaders e Events (filter (filterInherited (md s)) es)"
    "base (proc s') = base (proc s)" "version (proc s') = version (proc s)"
    "link_open s' = link_open s"
proof -
  let ?keep = "filterInherited (md s)"
  let ?cmp = "localeCompare e"
  from run obtain s1 s2 s3 s4 s5 s6 s7 s8 s9 s10 where
    st1: "deleteDescriptionAndExamples s = (None, s1)" and
    st2: "onMetadata filterInheritedMembers s1 = (None, s2)" and
    st3: "sortProperties e s2 = (None, s3)" and
    st4: "sortMethods e s3 = (None, s4)" and
    st5: "setLinkOpen PassThrough s4 = (None, s5)" and
    st6: "renderTypeSummary e s5 = (None, s6)" and
    st7: "transformMembersAndCollectHeaders e Properties s6 = (None, s7)" and
    st8: "transformMembersAndCollectHeaders e Methods s7 = (None, s8)" and
    st9: "transformMembersAndCollectHeaders e Events s8 = (None, s9)" and
    st10: "setLinkOpen (link_open s) s9 = (None, s10)" and
    st11: "onMetadata splitPropertiesAndConstants s10 = (None, s')"
    unfolding transoformMetadataAndCollectHeaders_def Let_def seqSteps_Cons_None
    by auto
  have s1: "s1 = s\<lparr>md := (md s)\<lparr>type_description := None, type_examples := None\<rparr>\<rparr>"
    using st1 by (simp add: deleteDescriptionAndExamples_def)
  from st2 obtain m2 where f: "filterInheritedMembers (md s1) = (None, m2)" and s2: "s2 = s1\<lparr>md := m2\<rparr>"
    by (auto simp: onMetadata_None)
  from filterInheritedMembers_None [OF f] obtain ps ms es where
    l1: "properties (md s1) = Some ps" "methods (md s1) = Some ms" "events (md s1) = Some es"
    by blast
  have keep1: "filterInherited (md s1) = ?keep"
    by (rule filterInherited_type_name) (simp add: s1)
  have m2: "m2 = (md s1)\<lparr>properties := Some (filter ?keep ps), methods := Some (filter ?keep ms),
               events := Some (filter ?keep es)\<rparr>"
    using f filterInheritedMembers_Some [OF l1] keep1 by simp
  have s4: "s4 = s2\<lparr>md := (md s2)\<lparr>properties := Some (sortMembers ?cmp (filter ?keep ps)),
               methods := Some (sortMembers ?cmp (filter ?keep ms))\<rparr>\<rparr>"
    using st3 st4 s2 m2 by (auto simp: sortProperties_def sortMethods_def sortByName_def)
  have s5: "s5 = s4\<lparr>link_open := PassThrough\<rparr>"
    using st5 by (simp add: setLinkOpen_def)
  from st6 obtain html where
    h: "renderMarkdown e (link_open s5) (proc s5) (type_summary (md s5)) = Inr html" and
    s6: "s6 = s5\<lparr>md := (md s5)\<lparr>type_summary := Some html\<rparr>\<rparr>"
    by (auto simp: renderTypeSummary_None)
  have p6: "proc s6 = proc s" "link_open s6 = PassThrough"
    by (simp_all add: s6 s5 s4 s2 s1)
  have g7: "getMembers Properties (md s6) = Some (sortMembers ?cmp (filter ?keep ps))"
    by (simp add: s6 s5 s4 s2 s1)
  note t7 = transformMembers_None [OF st7 g7, unfolded p6]
  have r7: "renderMarkdown e (link_open s7) (proc s7) = renderMarkdown e PassThrough (proc s)"
    using t7 p6 by (auto intro: renderMarkdown_proc)
  have g8: "getMembers Methods (md s7) = Some (sortMembers ?cmp (filter ?keep ms))"
    using t7 by (simp add: s6 s5 s4 s2 s1 m2)
  note t8 = transformMembers_None [OF st8 g8, unfolded r7]
  have r8: "renderMarkdown e (link_open s8) (proc s8) = renderMarkdown e PassThrough (proc s)"
    using t7 t8 p6 by (auto intro: renderMarkdown_proc)
  have g9: "getMembers Events (md s8) = Some (filter ?keep es)"
    using t7 t8 by (simp add: s6 s5 s4 s2 s1 m2)
  note t9 = transformMembers_None [OF st9 g9, unfolded r8]
  have s10: "s10 = s9\<lparr>link_open := link_open s\<rparr>"
    using st10 by (simp add: setLinkOpen_def)
  have g11: "properties (md s10) =
      Some (map (renderedMember e (proc s)) (sortMembers ?cmp (filter ?keep ps)))"
    using t7 t8 t9 by (simp add: s10 renderedMember_def)
  from st11 obtain m11 where sp: "splitPropertiesAndConstants (md s10) = (None, m11)"
    and s': "s' = s10\<lparr>md := m11\<rparr>"
    by (auto simp: onMetadata_None)
  have m11: "m11 = (md s10)\<lparr>
      properties := Some (filter (\<lambda>x. \<not> constantNamingPattern_test (name x))
         (map (renderedMember e (proc s)) (sortMembers ?cmp (filter ?keep ps)))),
      constants := Some (filter (\<lambda>x. constantNamingPattern_test (name x))
         (map (renderedMember e (proc s)) (sortMembers ?cmp (filter ?keep ps))))\<rparr>"
    using sp splitPropertiesAndConstants_Some [OF g11] by simp
  have md9: "md s9 = (md s)\<lparr>type_description := None, type_examples := None,
      type_summary := Some html,
      properties := Some (map (renderedMember e (proc s)) (sortMembers ?cmp (filter ?keep ps))),
      methods := Some (map (renderedMember e (proc s)) (sortMembers ?cmp (filter ?keep ms))),
      events := Some (map (renderedMember e (proc s)) (filter ?keep es))\<rparr>"
    using t7 t8 t9 by (simp add: s6 s5 s4 s2 s1 m2 renderedMember_def)
  have hd: "headed Properties = (\<lambda>x. \<not> constantNamingPattern_test (name x))"
     "headed Methods = (\<lambda>x. True)" "headed Events = (\<lambda>x. True)"
    by (simp_all add: headed_def fun_eq_iff)
  have ah9: "additionalHeaders (proc s9) = additionalHeaders (proc s) @
        sectionHeaders e Properties (filter (\<lambda>x. \<not> constantNamingPattern_test (name x))
           (sortMembers ?cmp (filter ?keep ps))) @
        sectionHeaders e Methods (sortMembers ?cmp (filter ?keep ms)) @
        sectionHeaders e Events (filter ?keep es)"
    using t7 t8 t9 by (simp add: hd)
  have hc9: "hasConstants (proc s9) = (hasConstants (proc s) \<or>
        (\<exists>x\<in>set ps. ?keep x \<and> constantNamingPattern_test (name x)))"
    using t7 t8 t9 by (auto simp: hd)
  have bv9: "base (proc s9) = base (proc s)" "version (proc s9) = version (proc s)"
    using t7 t8 t9 by simp_all
  show ?thesis
  proof (rule that [of ps ms es html])
    show "properties (md s) = Some ps" "methods (md s) = Some ms" "events (md s) = Some es"
      using l1 by (simp_all add: s1)
    show "renderMarkdown e PassThrough (proc s) (type_summary (md s)) = Inr html"
      using h by (simp add: s5 s4 s2 s1 m2)
  qed (simp_all add: s' m11 s10 md9 ah9 hc9 bv9)
qed

section \<open>Lemmas: the sort\<close>

lemma sorted_insertByName:
  assumes "consistentComparator cmp" "sorted_wrt (nameLe cmp) xs"
  shows "sorted_wrt (nameLe cmp) (insertByName cmp a xs)"
  using assms(2)
proof (induction xs)
  case Nil
  then show ?case by simp
next
  case (Cons b bs)
  have total: "\<And>x y. cmp x y \<le> 0 \<or> cmp y x \<le> 0"
    and trans: "\<And>x y z. cmp x y \<le> 0 \<Longrightarrow> cmp y z \<le> 0 \<Longrightarrow> cmp x z \<le> 0"
    using assms(1) unfolding consistentComparator_def by blast+
  show ?case
  proof (cases "cmp (name a) (name b) \<le> 0")
    case True
    then have "\<forall>y\<in>set bs. nameLe cmp a y"
      using Cons.prems trans unfolding nameLe_def by auto
    with True Cons.prems show ?thesis
      by (simp add: nameLe_def)
  next
    case False
    then have "nameLe cmp b a"
      using total [of "name a" "name b"] by (simp add: nameLe_def)
    with False Cons show ?thesis
      by auto
  qed
qed

lemma sorted_sortMembers:
  "consistentComparator cmp \<Longrightarrow> sorted_wrt (nameLe cmp) (sortMembers cmp xs)"
  by (induction xs) (simp_all add: sorted_insertByName)

lemma filter_insertByName_neg:
  "\<not> P a \<Longrightarrow> filter P (insertByName cmp a xs) = filter P xs"
  by (induction xs) simp_all

lemma filter_insertByName_pos:
  assumes "consistentComparator cmp"
    and "cmp n (name a) \<le> 0" "cmp (name a) n \<le> 0"
  shows "filter (\<lambda>x. cmp n (name x) \<le> 0 \<and> cmp (name x) n \<le> 0) (insertByName cmp a xs) =
         a # filter (\<lambda>x. cmp n (name x) \<le> 0 \<and> cmp (name x) n \<le> 0) xs"
proof (induction xs)
  case Nil
  then show ?case using assms by simp
next
  case (Cons b bs)
  have trans: "\<And>x y z. cmp x y \<le> 0 \<Longrightarrow> cmp y z \<le> 0 \<Longrightarrow> cmp x z \<le> 0"
    using assms(1) unfolding consistentComparator_def by blast
  show ?case
  proof (cases "cmp (name a) (name b) \<le> 0")
    case True
    then show ?thesis using assms by simp
  next
    case False
    have "\<not> cmp n (name b) \<le> 0"
      using False trans [OF assms(3)] by blast
    with False Cons show ?thesis by simp
  qed
qed

lemma sortMembers_stable:
  assumes "consistentComparator cmp"
  shows "filter (\<lambda>x. cmp n (name x) \<le> 0 \<and> cmp (name x) n \<le> 0) (sortMembers cmp xs) =
         filter (\<lambda>x. cmp n (name x) \<le> 0 \<and> cmp (name x) n \<le> 0) xs"
proof (induction xs)
  case Nil
  then show ?case by simp
next
  case (Cons a as)
  show ?case
  proof (cases "cmp n (name a) \<le> 0 \<and> cmp (name a) n \<le> 0")
    case True
    then show ?thesis
      using filter_insertByName_pos [OF assms, of n a] Cons by simp
  next
    case False
    then show ?thesis
      using filter_insertByName_neg [of "\<lambda>x. cmp n (name x) \<le> 0 \<and> cmp (name x) n \<le> 0" a] Cons
      by simp
  qed
qed

lemma sortMembers_stable_name:
  assumes "consistentComparator cmp"
  shows "filter (\<lambda>x. name x = n) (sortMembers cmp xs) = filter (\<lambda>x. name x = n) xs"
proof -
  let ?Q = "\<lambda>x. cmp n (name x) \<le> 0 \<and> cmp (name x) n \<le> 0"
  have refl: "cmp n n \<le> 0"
    using assms unfolding consistentComparator_def by blast
  have sub: "\<And>ys. filter (\<lambda>x. name x = n) ys = filter (\<lambda>x. name x = n) (filter ?Q ys)"
    using refl by (auto intro: filter_cong)
  show ?thesis
    using sub [of "sortMembers cmp xs"] sub [of xs] sortMembers_stable [OF assms, of n xs]
    by simp
qed

lemma sorted_wrt_rendered:
  "sorted_wrt (nameLe cmp) (map (renderedMember e p) xs) = sorted_wrt (nameLe cmp) xs"
  by (simp add: sorted_wrt_map nameLe_def [abs_def])

lemma filter_name_split:
  "filter (\<lambda>x. name x = n) (filter (\<lambda>x. \<not> c (name x)) xs @ filter (\<lambda>x. c (name x)) xs) =
   filter (\<lambda>x. name x = n) xs"
proof (cases "c n")
  case True
  then have "filter (\<lambda>x. name x = n) (filter (\<lambda>x. \<not> c (name x)) xs) = []"
    by (auto simp: filter_empty_conv)
  moreover have "filter (\<lambda>x. name x = n) (filter (\<lambda>x. c (name x)) xs) = filter (\<lambda>x. name x = n) xs"
    using True by (auto intro: filter_cong)
  ultimately show ?thesis by simp
next
  case False
  then have "filter (\<lambda>x. name x = n) (filter (\<lambda>x. c (name x)) xs) = []"
    by (auto simp: filter_empty_conv)
  moreover have "filter (\<lambda>x. name x = n) (filter (\<lambda>x. \<not> c (name x)) xs) = filter (\<lambda>x. name x = n) xs"
    using False by (auto intro: filter_cong)
  ultimately show ?thesis by simp
qed

lemma filter_name_rendered:
  "filter (\<lambda>x. P (name x)) (map (renderedMember e p) xs) =
   map (renderedMember e p) (filter (\<lambda>x. P (name x)) xs)"
  by (simp add: filter_map comp_def)

lemma compareStrings_total: "compareStrings a b \<le> 0 \<or> compareStrings b a \<le> 0"
  by (induction a b rule: compareStrings.induct) auto

lemma compareStrings_trans:
  "compareStrings a b \<le> 0 \<Longrightarrow> compareStrings b c \<le> 0 \<Longrightarrow> compareStrings a c \<le> 0"
proof (induction a b arbitrary: c rule: compareStrings.induct)
  case 1
  then show ?case by simp
next
  case (2 b bs)
  then show ?case by (cases c) simp_all
next
  case (3 a as)
  then show ?case by simp
next
  case (4 a as b bs)
  show ?case
  proof (cases c)
    case Nil
    with 4 show ?thesis by simp
  next
    case (Cons d ds)
    let ?a = "of_char a :: nat" and ?b = "of_char b :: nat" and ?d = "of_char d :: nat"
    from "4.prems"(1) have ab: "?a \<le> ?b" "?a < ?b \<or> compareStrings as bs \<le> 0"
      by (simp_all split: if_splits)
    from "4.prems"(2) Cons have bd: "?b \<le> ?d" "?b < ?d \<or> compareStrings bs ds \<le> 0"
      by (simp_all split: if_splits)
    show ?thesis
    proof (cases "?a < ?d")
      case True
      then show ?thesis using Cons by simp
    next
      case False
      with ab bd have eq: "?a = ?b" "?b = ?d" by linarith+
      with ab bd have "compareStrings as bs \<le> 0" "compareStrings bs ds \<le> 0" by simp_all
      with eq "4.IH" [of ds] have "compareStrings as ds \<le> 0" by simp
      with eq Cons show ?thesis by simp
    qed
  qed
qed

lemma compareStrings_consistent: "consistentComparator compareStrings"
  unfolding consistentComparator_def
  using compareStrings_total compareStrings_trans by blast

section \<open>The split into properties and constants\<close>

text \<open>
  C2. For a metadata object with a properties list \<open>ps\<close>, the split returns normally with
  two lists \<open>props\<close> and \<open>cs\<close> such that: their name sets are disjoint and together are
  the name set of \<open>ps\<close>; every member of \<open>ps\<close> whose name matches the constant pattern is
  in \<open>cs\<close> and every other one is in \<open>props\<close> (and nothing else is in either); and each
  of the two lists is the sublist of \<open>ps\<close> of the members of its class, in the order of \<open>ps\<close>.
\<close>

theorem split_partitions_properties:
  assumes "properties m = Some ps"
  shows "\<exists>props cs m'.
           splitPropertiesAndConstants m = (None, m') \<and>
           properties m' = Some props \<and> constants m' = Some cs \<and>
           name ` set props \<inter> name ` set cs = {} \<and>
           name ` set props \<union> name ` set cs = name ` set ps \<and>
           set cs = {p \<in> set ps. constantNamingPattern_test (name p)} \<and>
           set props = {p \<in> set ps. \<not> constantNamingPattern_test (name p)} \<and>
           cs = filter (\<lambda>p. constantNamingPattern_test (name p)) ps \<and>
           props = filter (\<lambda>p. \<not> constantNamingPattern_test (name p)) ps"
proof -
  let ?c = "\<lambda>p. constantNamingPattern_test (name p)"
  have disj: "name ` set (filter (\<lambda>p. \<not> ?c p) ps) \<inter> name ` set (filter ?c ps) = {}"
    by auto
  have un: "name ` set (filter (\<lambda>p. \<not> ?c p) ps) \<union> name ` set (filter ?c ps) = name ` set ps"
    by auto
  show ?thesis
    using disj un by (simp add: splitPropertiesAndConstants_Some [OF assms])
qed

theorem split_partitions_properties_witness:
  "properties exampleTwoProperties =
     Some [exampleMember ''MAX_SIZE'' None, exampleMember ''title'' None] \<and>
   (\<exists>m'. splitPropertiesAndConstants exampleTwoProperties = (None, m') \<and>
         properties m' = Some [exampleMember ''title'' None] \<and>
         constants m' = Some [exampleMember ''MAX_SIZE'' None])"
  using split_partitions_properties
    [of exampleTwoProperties "[exampleMember ''MAX_SIZE'' None, exampleMember ''title'' None]"]
  by (auto simp: exampleTwoProperties_def exampleMetadata_def exampleMember_def
        constantNamingPattern_test_def constantChar_def)

section \<open>Sorting by name\<close>

text \<open>
  C3. Let the comparator be consistent and let the pipeline run on a metadata object
  and return normally. Then the resulting properties, constants and methods are each
  in non-decreasing order of name under the comparator; members of the same name (and,
  for methods, members that the comparator takes for equal) stand in the order they had
  in the input, each being the rendered form of its input member; and the events are
  the rendered input events that the inheritance filter keeps, in the input order.
\<close>

theorem sorted_by_name_events_in_input_order:
  assumes cons: "consistentComparator (localeCompare e)"
    and run: "transoformMetadataAndCollectHeaders e s = (None, s')"
  shows "\<exists>ps ms es ps' cs' ms' es'.
           properties (md s) = Some ps \<and> methods (md s) = Some ms \<and> events (md s) = Some es \<and>
           properties (md s') = Some ps' \<and> constants (md s') = Some cs' \<and>
           methods (md s') = Some ms' \<and> events (md s') = Some es' \<and>
           sorted_wrt (nameLe (localeCompare e)) ps' \<and>
           sorted_wrt (nameLe (localeCompare e)) cs' \<and>
           sorted_wrt (nameLe (localeCompare e)) ms' \<and>
           (\<forall>n. filter (\<lambda>x. name x = n) (ps' @ cs') =
                map (renderedMember e (proc s))
                  (filter (\<lambda>x. name x = n) (filter (filterInherited (md s)) ps))) \<and>
           (\<forall>n. filter (\<lambda>x. name x = n) ms' =
                map (renderedMember e (proc s))
                  (filter (\<lambda>x. name x = n) (filter (filterInherited (md s)) ms))) \<and>
           (\<forall>n. filter (\<lambda>x. localeCompare e n (name x) \<le> 0 \<and> localeCompare e (name x) n \<le> 0) ms' =
                map (renderedMember e (proc s))
                  (filter (\<lambda>x. localeCompare e n (name x) \<le> 0 \<and> localeCompare e (name x) n \<le> 0)
                     (filter (filterInherited (md s)) ms))) \<and>
           es' = map (renderedMember e (proc s)) (filter (filterInherited (md s)) es)"
proof -
  let ?cmp = "localeCompare e"
  let ?R = "renderedMember e (proc s)"
  let ?keep = "filterInherited (md s)"
  let ?c = "\<lambda>x. constantNamingPattern_test (name x)"
  from run obtain ps ms es where
    src: "properties (md s) = Some ps" "methods (md s) = Some ms" "events (md s) = Some es" and
    res: "properties (md s') = Some (filter (\<lambda>x. \<not> ?c x) (map ?R (sortMembers ?cmp (filter ?keep ps))))"
         "constants (md s') = Some (filter ?c (map ?R (sortMembers ?cmp (filter ?keep ps))))"
         "methods (md s') = Some (map ?R (sortMembers ?cmp (filter ?keep ms)))"
         "events (md s') = Some (map ?R (filter ?keep es))"
    by (rule pipeline_success)
  let ?P = "map ?R (sortMembers ?cmp (filter ?keep ps))"
  let ?M = "map ?R (sortMembers ?cmp (filter ?keep ms))"
  have sP: "sorted_wrt (nameLe ?cmp) ?P" and sM: "sorted_wrt (nameLe ?cmp) ?M"
    by (simp_all add: sorted_wrt_rendered sorted_sortMembers [OF cons])
  have s1: "sorted_wrt (nameLe ?cmp) (filter (\<lambda>x. \<not> ?c x) ?P)"
    and s2: "sorted_wrt (nameLe ?cmp) (filter ?c ?P)"
    using sP by (rule sorted_wrt_filter)+
  have stP: "filter (\<lambda>x. name x = n) (filter (\<lambda>x. \<not> ?c x) ?P @ filter ?c ?P) =
      map ?R (filter (\<lambda>x. name x = n) (filter ?keep ps))" for n
  proof -
    have "filter (\<lambda>x. name x = n) (filter (\<lambda>x. \<not> ?c x) ?P @ filter ?c ?P) =
          filter (\<lambda>x. name x = n) ?P"
      by (rule filter_name_split)
    also have "\<dots> = map ?R (filter (\<lambda>x. name x = n) (sortMembers ?cmp (filter ?keep ps)))"
      by (rule filter_name_rendered [where P = "\<lambda>y. y = n"])
    finally show ?thesis
      by (simp only: sortMembers_stable_name [OF cons])
  qed
  have stM: "filter (\<lambda>x. name x = n) ?M = map ?R (filter (\<lambda>x. name x = n) (filter ?keep ms))" for n
    using filter_name_rendered [where P = "\<lambda>y. y = n" and xs = "sortMembers ?cmp (filter ?keep ms)"]
    by (simp only: sortMembers_stable_name [OF cons])
  have stM2: "filter (\<lambda>x. ?cmp n (name x) \<le> 0 \<and> ?cmp (name x) n \<le> 0) ?M =
      map ?R (filter (\<lambda>x. ?cmp n (name x) \<le> 0 \<and> ?cmp (name x) n \<le> 0) (filter ?keep ms))" for n
    using filter_name_rendered [where P = "\<lambda>y. ?cmp n y \<le> 0 \<and> ?cmp y n \<le> 0"
        and xs = "sortMembers ?cmp (filter ?keep ms)"]
    by (simp only: sortMembers_stable [OF cons])
  show ?thesis
    using src res s1 s2 sM stP stM stM2 by blast
qed

theorem sorted_by_name_events_in_input_order_witness:
  "consistentComparator (localeCompare exampleEnv) \<and>
   (\<exists>s'. transoformMetadataAndCollectHeaders exampleEnv (exampleState exampleMetadata) = (None, s') \<and>
      map name (case methods (md s') of None \<Rightarrow> [] | Some xs \<Rightarrow> xs) = [''hide'', ''show''] \<and>
      map name (case events (md s') of None \<Rightarrow> [] | Some xs \<Rightarrow> xs) = [''click'', ''change''] \<and>
      (\<exists>ms'. methods (md s') = Some ms' \<and> sorted_wrt (nameLe (localeCompare exampleEnv)) ms'))"
proof -
  let ?s' = "snd (transoformMetadataAndCollectHeaders exampleEnv (exampleState exampleMetadata))"
  have c: "consistentComparator (localeCompare exampleEnv)"
    by (simp add: exampleEnv_def compareStrings_consistent)
  have "fst (transoformMetadataAndCollectHeaders exampleEnv (exampleState exampleMetadata)) = None"
    by code_simp
  then have r: "transoformMetadataAndCollectHeaders exampleEnv (exampleState exampleMetadata) = (None, ?s')"
    by (metis prod.collapse)
  have m: "map name (case methods (md ?s') of None \<Rightarrow> [] | Some xs \<Rightarrow> xs) = [''hide'', ''show'']"
    by code_simp
  have ev: "map name (case events (md ?s') of None \<Rightarrow> [] | Some xs \<Rightarrow> xs) = [''click'', ''change'']"
    by code_simp
  from sorted_by_name_events_in_input_order [OF c r] obtain ms' where
    "methods (md ?s') = Some ms'" "sorted_wrt (nameLe (localeCompare exampleEnv)) ms'"
    by auto
  then have "\<exists>ms'. methods (md ?s') = Some ms' \<and> sorted_wrt (nameLe (localeCompare exampleEnv)) ms'"
    by (intro exI conjI)
  with c r m ev show ?thesis
    by (intro conjI exI [of _ ?s'])
qed

section \<open>Filtering inherited members\<close>

lemma filterInherited_iff:
  "filterInherited m x \<longleftrightarrow> \<not> (\<exists>n. inherits x = Some n \<and> n \<noteq> [] \<and> n \<noteq> type_name m)"
  by (cases "inherits x") (auto simp: filterInherited_def truthy_def)

text \<open>
  C4. On a metadata object that has its three member lists, \<^verbatim>\<open>filterInheritedMembers\<close>
  returns normally, and each of the lists \<open>properties\<close>, \<open>methods\<close> and \<open>events\<close>
  becomes, by the same test and whatever the other two hold, the sublist (in the
  original order) of its members that are not inherited from another type. A member is
  removed exactly when its \<open>inherits\<close> field is set to a name other than the type's own
  name, where "set" is what JavaScript takes for true: present and not the empty
  string. A member without \<open>inherits\<close>, or whose \<open>inherits\<close> is the type's own name, is
  kept. Nothing else of the metadata changes.
\<close>

theorem filterInheritedMembers_drops_inherited:
  assumes "properties m = Some ps" "methods m = Some ms" "events m = Some es"
  shows "\<exists>m' ps' ms' es'.
           filterInheritedMembers m = (None, m') \<and>
           properties m' = Some ps' \<and> methods m' = Some ms' \<and> events m' = Some es' \<and>
           ps' = filter (\<lambda>x. \<not> (\<exists>n. inherits x = Some n \<and> n \<noteq> [] \<and> n \<noteq> type_name m)) ps \<and>
           ms' = filter (\<lambda>x. \<not> (\<exists>n. inherits x = Some n \<and> n \<noteq> [] \<and> n \<noteq> type_name m)) ms \<and>
           es' = filter (\<lambda>x. \<not> (\<exists>n. inherits x = Some n \<and> n \<noteq> [] \<and> n \<noteq> type_name m)) es \<and>
           (\<forall>x. inherits x = None \<or> inherits x = Some (type_name m) \<longrightarrow>
                (x \<in> set ps \<longrightarrow> x \<in> set ps') \<and> (x \<in> set ms \<longrightarrow> x \<in> set ms') \<and>
                (x \<in> set es \<longrightarrow> x \<in> set es')) \<and>
           (\<forall>x n. inherits x = Some n \<and> n \<noteq> [] \<and> n \<noteq> type_name m \<longrightarrow>
                x \<notin> set ps' \<and> x \<notin> set ms' \<and> x \<notin> set es') \<and>
           type_name m' = type_name m \<and> type_summary m' = type_summary m \<and>
           constants m' = constants m"
proof -
  have eq: "filterInherited m =
      (\<lambda>x. \<not> (\<exists>n. inherits x = Some n \<and> n \<noteq> [] \<and> n \<noteq> type_name m))"
    by (simp add: fun_eq_iff filterInherited_iff)
  show ?thesis
    unfolding filterInheritedMembers_Some [OF assms] eq
    by auto
qed

theorem filterInheritedMembers_drops_inherited_witness:
  "properties exampleMetadata =
     Some [exampleMember ''title'' None, exampleMember ''MAX_SIZE'' (Some ''Foo''),
           exampleMember ''id'' (Some ''Proxy'')] \<and>
   methods exampleMetadata = Some [exampleMember ''show'' None, exampleMember ''hide'' None] \<and>
   events exampleMetadata = Some [exampleMember ''click'' None, exampleMember ''change'' None] \<and>
   (\<exists>m'. filterInheritedMembers exampleMetadata = (None, m') \<and>
      properties m' = Some [exampleMember ''title'' None, exampleMember ''MAX_SIZE'' (Some ''Foo'')] \<and>
      methods m' = Some [exampleMember ''show'' None, exampleMember ''hide'' None] \<and>
      events m' = Some [exampleMember ''click'' None, exampleMember ''change'' None])"
proof -
  have src: "properties exampleMetadata =
       Some [exampleMember ''title'' None, exampleMember ''MAX_SIZE'' (Some ''Foo''),
             exampleMember ''id'' (Some ''Proxy'')]"
     "methods exampleMetadata = Some [exampleMember ''show'' None, exampleMember ''hide'' None]"
     "events exampleMetadata = Some [exampleMember ''click'' None, exampleMember ''change'' None]"
    by (simp_all add: exampleMetadata_def)
  have n: "type_name exampleMetadata = ''Foo''"
    by (simp add: exampleMetadata_def)
  from filterInheritedMembers_drops_inherited [OF src] src show ?thesis
    by (auto simp: n exampleMember_def)
qed

section \<open>Collected headers\<close>

text \<open>
  C7. Let a fresh processor run the pipeline on a metadata object and return normally,
  and let \<open>P\<close>, \<open>M\<close> and \<open>E\<close> be the members with a header of their own: the kept and
  sorted properties whose name does not match the constant pattern, the kept and
  sorted methods, the kept events. Then the header list of the processor is, in this
  order: when \<open>P\<close> is not empty, the header of level 2 with title \<^verbatim>\<open>Properties\<close> and slug
  \<^verbatim>\<open>properties\<close>, followed by one header of level 3 per member of \<open>P\<close>, its title the
  member's name and its slug the lower-cased name; the same for \<open>M\<close> with \<^verbatim>\<open>Methods\<close> and
  \<^verbatim>\<open>methods\<close>; the same for \<open>E\<close> with \<^verbatim>\<open>Events\<close> and \<^verbatim>\<open>events\<close>. A kind without such a
  member contributes nothing, and a property whose name matches the constant pattern
  has no header of its own. \<^verbatim>\<open>appendAdditionalHeaders\<close> appends this list to the headers
  of the page, and after it one header of level 2, \<^verbatim>\<open>Constants\<close> with slug \<^verbatim>\<open>constants\<close>,
  when some kept property is a constant, however many there are. In particular, for a
  type with exactly two (own) properties, a constant \<open>a\<close> and a non-constant \<open>b\<close>, and
  no methods or events, the list is exactly the Properties header and the header of
  \<open>b\<close>, and one call of \<^verbatim>\<open>appendAdditionalHeaders\<close> adds these two and the single
  Constants header to the page.
\<close>

theorem collected_headers:
  assumes run: "transoformMetadataAndCollectHeaders e s = (None, s')"
    and fresh: "proc s = newMetadataProcessor e v"
  shows "\<exists>ps ms es P M E.
           properties (md s) = Some ps \<and> methods (md s) = Some ms \<and> events (md s) = Some es \<and>
           P = filter (\<lambda>x. \<not> constantNamingPattern_test (name x))
                 (sortMembers (localeCompare e) (filter (filterInherited (md s)) ps)) \<and>
           M = sortMembers (localeCompare e) (filter (filterInherited (md s)) ms) \<and>
           E = filter (filterInherited (md s)) es \<and>
           additionalHeaders (proc s') =
             (if P = [] then []
              else \<lparr>level = 2, title = ''Properties'', slug = ''properties''\<rparr> #
                   map (\<lambda>x. \<lparr>level = 3, title = name x, slug = toLowerCase e (name x)\<rparr>) P) @
             (if M = [] then []
              else \<lparr>level = 2, title = ''Methods'', slug = ''methods''\<rparr> #
                   map (\<lambda>x. \<lparr>level = 3, title = name x, slug = toLowerCase e (name x)\<rparr>) M) @
             (if E = [] then []
              else \<lparr>level = 2, title = ''Events'', slug = ''events''\<rparr> #
                   map (\<lambda>x. \<lparr>level = 3, title = name x, slug = toLowerCase e (name x)\<rparr>) E) \<and>
           headers (appendAdditionalHeaders (proc s') pg) =
             Some ((case headers pg of None \<Rightarrow> [] | Some h \<Rightarrow> h) @ additionalHeaders (proc s') @
                   (if \<exists>x\<in>set ps. filterInherited (md s) x \<and> constantNamingPattern_test (name x)
                    then [\<lparr>level = 2, title = ''Constants'', slug = ''constants''\<rparr>] else [])) \<and>
           (\<forall>a b. (ps = [a, b] \<or> ps = [b, a]) \<and> ms = [] \<and> es = [] \<and>
                  constantNamingPattern_test (name a) \<and> \<not> constantNamingPattern_test (name b) \<and>
                  filterInherited (md s) a \<and> filterInherited (md s) b \<longrightarrow>
                  additionalHeaders (proc s') =
                    [\<lparr>level = 2, title = ''Properties'', slug = ''properties''\<rparr>,
                     \<lparr>level = 3, title = name b, slug = toLowerCase e (name b)\<rparr>] \<and>
                  headers (appendAdditionalHeaders (proc s') pg) =
                    Some ((case headers pg of None \<Rightarrow> [] | Some h \<Rightarrow> h) @
                          [\<lparr>level = 2, title = ''Properties'', slug = ''properties''\<rparr>,
                           \<lparr>level = 3, title = name b, slug = toLowerCase e (name b)\<rparr>,
                           \<lparr>level = 2, title = ''Constants'', slug = ''constants''\<rparr>]))"
proof -
  let ?c = "\<lambda>x. constantNamingPattern_test (name x)"
  let ?keep = "filterInherited (md s)"
  let ?cmp = "localeCompare e"
  let ?h = "\<lambda>x. \<lparr>level = 3, title = name x, slug = toLowerCase e (name x)\<rparr>"
  from run obtain ps ms es where
    src: "properties (md s) = Some ps" "methods (md s) = Some ms" "events (md s) = Some es" and
    hc: "hasConstants (proc s') = (hasConstants (proc s) \<or> (\<exists>x\<in>set ps. ?keep x \<and> ?c x))" and
    ah: "additionalHeaders (proc s') = additionalHeaders (proc s) @
       sectionHeaders e Properties (filter (\<lambda>x. \<not> ?c x) (sortMembers ?cmp (filter ?keep ps))) @
       sectionHeaders e Methods (sortMembers ?cmp (filter ?keep ms)) @
       sectionHeaders e Events (filter ?keep es)"
    by (rule pipeline_success)
  let ?P = "filter (\<lambda>x. \<not> ?c x) (sortMembers ?cmp (filter ?keep ps))"
  let ?M = "sortMembers ?cmp (filter ?keep ms)"
  let ?E = "filter ?keep es"
  have p0: "\<not> hasConstants (proc s)" "additionalHeaders (proc s) = []"
    by (simp_all add: fresh newMetadataProcessor_def)
  have grp: "groupHeader Properties = \<lparr>level = 2, title = ''Properties'', slug = ''properties''\<rparr>"
    "groupHeader Methods = \<lparr>level = 2, title = ''Methods'', slug = ''methods''\<rparr>"
    "groupHeader Events = \<lparr>level = 2, title = ''Events'', slug = ''events''\<rparr>"
    by (simp_all add: groupHeader_def capitalize_def upperCaseLetter_def)
  have mh: "map (memberHeader e) xs = map ?h xs" for xs
    by (simp add: memberHeader_def)
  have ah': "additionalHeaders (proc s') =
       (if ?P = [] then []
        else \<lparr>level = 2, title = ''Properties'', slug = ''properties''\<rparr> # map ?h ?P) @
       (if ?M = [] then []
        else \<lparr>level = 2, title = ''Methods'', slug = ''methods''\<rparr> # map ?h ?M) @
       (if ?E = [] then []
        else \<lparr>level = 2, title = ''Events'', slug = ''events''\<rparr> # map ?h ?E)"
    unfolding ah p0 sectionHeaders_def grp mh by simp
  have hc': "hasConstants (proc s') = (\<exists>x\<in>set ps. ?keep x \<and> ?c x)"
    using hc p0 by simp
  have app: "headers (appendAdditionalHeaders (proc s') pg) =
     Some ((case headers pg of None \<Rightarrow> [] | Some h \<Rightarrow> h) @ additionalHeaders (proc s') @
           (if \<exists>x\<in>set ps. ?keep x \<and> ?c x
            then [\<lparr>level = 2, title = ''Constants'', slug = ''constants''\<rparr>] else []))"
    using hc' by (simp add: appendAdditionalHeaders_def Let_def constantsHeader_def)
  have two: "?P = [b]"
    if "ps = [a, b] \<or> ps = [b, a]" "?c a" "\<not> ?c b" "?keep a" "?keep b" for a b
    using that by auto
  have ex: "additionalHeaders (proc s') =
        [\<lparr>level = 2, title = ''Properties'', slug = ''properties''\<rparr>,
         \<lparr>level = 3, title = name b, slug = toLowerCase e (name b)\<rparr>] \<and>
      headers (appendAdditionalHeaders (proc s') pg) =
        Some ((case headers pg of None \<Rightarrow> [] | Some h \<Rightarrow> h) @
              [\<lparr>level = 2, title = ''Properties'', slug = ''properties''\<rparr>,
               \<lparr>level = 3, title = name b, slug = toLowerCase e (name b)\<rparr>,
               \<lparr>level = 2, title = ''Constants'', slug = ''constants''\<rparr>])"
    if h: "(ps = [a, b] \<or> ps = [b, a]) \<and> ms = [] \<and> es = [] \<and> ?c a \<and> \<not> ?c b \<and> ?keep a \<and> ?keep b"
    for a b
  proof -
    from h have t: "?P = [b]"
      using two [of a b] by blast
    from h have any: "\<exists>x\<in>set ps. ?keep x \<and> ?c x" by auto
    from h have em: "?M = []" "?E = []" by simp_all
    have a1: "additionalHeaders (proc s') =
        [\<lparr>level = 2, title = ''Properties'', slug = ''properties''\<rparr>,
         \<lparr>level = 3, title = name b, slug = toLowerCase e (name b)\<rparr>]"
      unfolding ah' t em by simp
    show ?thesis
      using a1 any by (simp add: app)
  qed
  from ex have ex': "\<forall>a b. (ps = [a, b] \<or> ps = [b, a]) \<and> ms = [] \<and> es = [] \<and>
                  ?c a \<and> \<not> ?c b \<and> ?keep a \<and> ?keep b \<longrightarrow>
                  additionalHeaders (proc s') =
                    [\<lparr>level = 2, title = ''Properties'', slug = ''properties''\<rparr>,
                     \<lparr>level = 3, title = name b, slug = toLowerCase e (name b)\<rparr>] \<and>
                  headers (appendAdditionalHeaders (proc s') pg) =
                    Some ((case headers pg of None \<Rightarrow> [] | Some h \<Rightarrow> h) @
                          [\<lparr>level = 2, title = ''Properties'', slug = ''properties''\<rparr>,
                           \<lparr>level = 3, title = name b, slug = toLowerCase e (name b)\<rparr>,
                           \<lparr>level = 2, title = ''Constants'', slug = ''constants''\<rparr>])"
    by blast
  show ?thesis
    by (intro exI [of _ ps] exI [of _ ms] exI [of _ es] exI [of _ ?P] exI [of _ ?M]
          exI [of _ ?E] conjI src refl ah' app ex')
qed

text \<open>
  The theorem at the type \<^verbatim>\<open>Foo\<close> of the examples, which has members of every kind (the
  pipeline returns, and the list has the three group headers with the headers of their
  members), and at the type of the header example.
\<close>

theorem collected_headers_witness:
  "(\<exists>s'. transoformMetadataAndCollectHeaders exampleEnv (exampleState exampleMetadata) = (None, s') \<and>
      proc (exampleState exampleMetadata) = newMetadataProcessor exampleEnv ''1.0'' \<and>
      additionalHeaders (proc s') =
        [\<lparr>level = 2, title = ''Properties'', slug = ''properties''\<rparr>,
         \<lparr>level = 3, title = ''title'', slug = ''title''\<rparr>,
         \<lparr>level = 2, title = ''Methods'', slug = ''methods''\<rparr>,
         \<lparr>level = 3, title = ''hide'', slug = ''hide''\<rparr>,
         \<lparr>level = 3, title = ''show'', slug = ''show''\<rparr>,
         \<lparr>level = 2, title = ''Events'', slug = ''events''\<rparr>,
         \<lparr>level = 3, title = ''click'', slug = ''click''\<rparr>,
         \<lparr>level = 3, title = ''change'', slug = ''change''\<rparr>]) \<and>
   (\<exists>s'. transoformMetadataAndCollectHeaders exampleEnv (exampleState exampleTwoProperties) = (None, s') \<and>
      proc (exampleState exampleTwoProperties) = newMetadataProcessor exampleEnv ''1.0'' \<and>
      properties (md (exampleState exampleTwoProperties)) =
        Some [exampleMember ''MAX_SIZE'' None, exampleMember ''title'' None] \<and>
      additionalHeaders (proc s') =
        [\<lparr>level = 2, title = ''Properties'', slug = ''properties''\<rparr>,
         \<lparr>level = 3, title = ''title'', slug = ''title''\<rparr>] \<and>
      headers (appendAdditionalHeaders (proc s') examplePage) =
        Some [\<lparr>level = 2, title = ''Properties'', slug = ''properties''\<rparr>,
              \<lparr>level = 3, title = ''title'', slug = ''title''\<rparr>,
              \<lparr>level = 2, title = ''Constants'', slug = ''constants''\<rparr>])"
proof -
  have all: "\<exists>s'. transoformMetadataAndCollectHeaders exampleEnv (exampleState exampleMetadata) = (None, s') \<and>
      proc (exampleState exampleMetadata) = newMetadataProcessor exampleEnv ''1.0'' \<and>
      additionalHeaders (proc s') =
        [\<lparr>level = 2, title = ''Properties'', slug = ''properties''\<rparr>,
         \<lparr>level = 3, title = ''title'', slug = ''title''\<rparr>,
         \<lparr>level = 2, title = ''Methods'', slug = ''methods''\<rparr>,
         \<lparr>level = 3, title = ''hide'', slug = ''hide''\<rparr>,
         \<lparr>level = 3, title = ''show'', slug = ''show''\<rparr>,
         \<lparr>level = 2, title = ''Events'', slug = ''events''\<rparr>,
         \<lparr>level = 3, title = ''click'', slug = ''click''\<rparr>,
         \<lparr>level = 3, title = ''change'', slug = ''change''\<rparr>]"
  proof -
    let ?s = "exampleState exampleMetadata"
    let ?s' = "snd (transoformMetadataAndCollectHeaders exampleEnv ?s)"
    have "fst (transoformMetadataAndCollectHeaders exampleEnv ?s) = None"
      by code_simp
    then have r: "transoformMetadataAndCollectHeaders exampleEnv ?s = (None, ?s')"
      by (metis prod.collapse)
    have f: "proc ?s = newMetadataProcessor exampleEnv ''1.0''"
      by (simp add: exampleState_def)
    have src: "properties (md ?s) = Some [exampleMember ''title'' None,
          exampleMember ''MAX_SIZE'' (Some ''Foo''), exampleMember ''id'' (Some ''Proxy'')]"
      "methods (md ?s) = Some [exampleMember ''show'' None, exampleMember ''hide'' None]"
      "events (md ?s) = Some [exampleMember ''click'' None, exampleMember ''change'' None]"
      by (simp_all add: exampleState_def exampleMetadata_def)
    from collected_headers [OF r f, of examplePage] obtain ps ms es P M E where
      got: "properties (md ?s) = Some ps" "methods (md ?s) = Some ms" "events (md ?s) = Some es" and
      P: "P = filter (\<lambda>x. \<not> constantNamingPattern_test (name x))
                 (sortMembers (localeCompare exampleEnv) (filter (filterInherited (md ?s)) ps))" and
      M: "M = sortMembers (localeCompare exampleEnv) (filter (filterInherited (md ?s)) ms)" and
      E: "E = filter (filterInherited (md ?s)) es" and
      ah: "additionalHeaders (proc ?s') =
             (if P = [] then []
              else \<lparr>level = 2, title = ''Properties'', slug = ''properties''\<rparr> #
                   map (\<lambda>x. \<lparr>level = 3, title = name x, slug = toLowerCase exampleEnv (name x)\<rparr>) P) @
             (if M = [] then []
              else \<lparr>level = 2, title = ''Methods'', slug = ''methods''\<rparr> #
                   map (\<lambda>x. \<lparr>level = 3, title = name x, slug = toLowerCase exampleEnv (name x)\<rparr>) M) @
             (if E = [] then []
              else \<lparr>level = 2, title = ''Events'', slug = ''events''\<rparr> #
                   map (\<lambda>x. \<lparr>level = 3, title = name x, slug = toLowerCase exampleEnv (name x)\<rparr>) E)"
      by blast
    from got src have lists: "ps = [exampleMember ''title'' None,
          exampleMember ''MAX_SIZE'' (Some ''Foo''), exampleMember ''id'' (Some ''Proxy'')]"
      "ms = [exampleMember ''show'' None, exampleMember ''hide'' None]"
      "es = [exampleMember ''click'' None, exampleMember ''change'' None]"
      by simp_all
    have P': "P = [exampleMember ''title'' None]"
      unfolding P lists
      by (simp add: exampleState_def exampleMetadata_def exampleMember_def exampleEnv_def
            filterInherited_def truthy_def constantNamingPattern_test_def constantChar_def)
    have M': "M = [exampleMember ''hide'' None, exampleMember ''show'' None]"
      unfolding M lists
      by (simp add: exampleState_def exampleMetadata_def exampleMember_def exampleEnv_def
            filterInherited_def truthy_def)
    have E': "E = [exampleMember ''click'' None, exampleMember ''change'' None]"
      unfolding E lists
      by (simp add: exampleState_def exampleMetadata_def exampleMember_def
            filterInherited_def truthy_def)
    have "additionalHeaders (proc ?s') =
        [\<lparr>level = 2, title = ''Properties'', slug = ''properties''\<rparr>,
         \<lparr>level = 3, title = ''title'', slug = ''title''\<rparr>,
         \<lparr>level = 2, title = ''Methods'', slug = ''methods''\<rparr>,
         \<lparr>level = 3, title = ''hide'', slug = ''hide''\<rparr>,
         \<lparr>level = 3, title = ''show'', slug = ''show''\<rparr>,
         \<lparr>level = 2, title = ''Events'', slug = ''events''\<rparr>,
         \<lparr>level = 3, title = ''click'', slug = ''click''\<rparr>,
         \<lparr>level = 3, title = ''change'', slug = ''change''\<rparr>]"
      unfolding ah P' M' E'
      by (simp add: exampleMember_def exampleEnv_def asciiToLowerCase_def)
    with r f show ?thesis
      by (intro exI [of _ ?s'] conjI)
  qed
  have two: "\<exists>s'. transoformMetadataAndCollectHeaders exampleEnv (exampleState exampleTwoProperties) = (None, s') \<and>
      proc (exampleState exampleTwoProperties) = newMetadataProcessor exampleEnv ''1.0'' \<and>
      properties (md (exampleState exampleTwoProperties)) =
        Some [exampleMember ''MAX_SIZE'' None, exampleMember ''title'' None] \<and>
      additionalHeaders (proc s') =
        [\<lparr>level = 2, title = ''Properties'', slug = ''properties''\<rparr>,
         \<lparr>level = 3, title = ''title'', slug = ''title''\<rparr>] \<and>
      headers (appendAdditionalHeaders (proc s') examplePage) =
        Some [\<lparr>level = 2, title = ''Properties'', slug = ''properties''\<rparr>,
              \<lparr>level = 3, title = ''title'', slug = ''title''\<rparr>,
              \<lparr>level = 2, title = ''Constants'', slug = ''constants''\<rparr>]"
  proof -
    let ?s = "exampleState exampleTwoProperties"
    let ?s' = "snd (transoformMetadataAndCollectHeaders exampleEnv ?s)"
    let ?a = "exampleMember ''MAX_SIZE'' None" and ?b = "exampleMember ''title'' None"
    have "fst (transoformMetadataAndCollectHeaders exampleEnv ?s) = None"
      by code_simp
    then have r: "transoformMetadataAndCollectHeaders exampleEnv ?s = (None, ?s')"
      by (metis prod.collapse)
    have f: "proc ?s = newMetadataProcessor exampleEnv ''1.0''"
      by (simp add: exampleState_def)
    have src: "properties (md ?s) = Some [?a, ?b]" "methods (md ?s) = Some []" "events (md ?s) = Some []"
      by (simp_all add: exampleState_def exampleTwoProperties_def exampleMetadata_def)
    have cls: "constantNamingPattern_test (name ?a)" "\<not> constantNamingPattern_test (name ?b)"
       "filterInherited (md ?s) ?a" "filterInherited (md ?s) ?b"
      by (simp_all add: exampleMember_def constantNamingPattern_test_def constantChar_def
            filterInherited_def truthy_def)
    have nm: "name ?b = ''title''" "toLowerCase exampleEnv ''title'' = ''title''"
      "headers examplePage = None"
      by (simp_all add: exampleMember_def exampleEnv_def asciiToLowerCase_def examplePage_def)
    from collected_headers [OF r f, of examplePage] obtain ps ms es where
      got: "properties (md ?s) = Some ps" "methods (md ?s) = Some ms" "events (md ?s) = Some es" and
      ex: "\<forall>a b. (ps = [a, b] \<or> ps = [b, a]) \<and> ms = [] \<and> es = [] \<and>
             constantNamingPattern_test (name a) \<and> \<not> constantNamingPattern_test (name b) \<and>
             filterInherited (md ?s) a \<and> filterInherited (md ?s) b \<longrightarrow>
             additionalHeaders (proc ?s') =
               [\<lparr>level = 2, title = ''Properties'', slug = ''properties''\<rparr>,
                \<lparr>level = 3, title = name b, slug = toLowerCase exampleEnv (name b)\<rparr>] \<and>
             headers (appendAdditionalHeaders (proc ?s') examplePage) =
               Some ((case headers examplePage of None \<Rightarrow> [] | Some h \<Rightarrow> h) @
                     [\<lparr>level = 2, title = ''Properties'', slug = ''properties''\<rparr>,
                      \<lparr>level = 3, title = name b, slug = toLowerCase exampleEnv (name b)\<rparr>,
                      \<lparr>level = 2, title = ''Constants'', slug = ''constants''\<rparr>])"
      by blast
    from got src have lists: "ps = [?a, ?b]" "ms = []" "es = []"
      by simp_all
    from ex [rule_format, of ?a ?b] lists cls
    have "additionalHeaders (proc ?s') =
            [\<lparr>level = 2, title = ''Properties'', slug = ''properties''\<rparr>,
             \<lparr>level = 3, title = name ?b, slug = toLowerCase exampleEnv (name ?b)\<rparr>] \<and>
          headers (appendAdditionalHeaders (proc ?s') examplePage) =
            Some ((case headers examplePage of None \<Rightarrow> [] | Some h \<Rightarrow> h) @
                  [\<lparr>level = 2, title = ''Properties'', slug = ''properties''\<rparr>,
                   \<lparr>level = 3, title = name ?b, slug = toLowerCase exampleEnv (name ?b)\<rparr>,
                   \<lparr>level = 2, title = ''Constants'', slug = ''constants''\<rparr>])"
      by blast
    with r f src show ?thesis
      by (intro exI [of _ ?s']) (simp add: nm)
  qed
  from all two show ?thesis
    by (rule conjI)
qed

section \<open>The constants flag\<close>

text \<open>
  C10. After a fresh processor has run the pipeline on a metadata object and returned
  normally, the metadata has a constants list, and the flag \<open>hasConstants\<close> of the
  processor is set if and only if that list is not empty; so \<^verbatim>\<open>appendAdditionalHeaders\<close>
  appends the Constants header exactly when the processed metadata has a constant.
\<close>

theorem hasConstants_iff_constants:
  assumes run: "transoformMetadataAndCollectHeaders e s = (None, s')"
    and fresh: "proc s = newMetadataProcessor e v"
  shows "\<exists>cs. constants (md s') = Some cs \<and>
           (hasConstants (proc s') \<longleftrightarrow> cs \<noteq> []) \<and>
           headers (appendAdditionalHeaders (proc s') pg) =
             Some ((case headers pg of None \<Rightarrow> [] | Some h \<Rightarrow> h) @ additionalHeaders (proc s') @
                   (if cs \<noteq> [] then [\<lparr>level = 2, title = ''Constants'', slug = ''constants''\<rparr>] else []))"
proof -
  let ?c = "\<lambda>x. constantNamingPattern_test (name x)"
  from run obtain ps where
    cs: "constants (md s') = Some (filter ?c (map (renderedMember e (proc s))
            (sortMembers (localeCompare e) (filter (filterInherited (md s)) ps))))" and
    hc: "hasConstants (proc s') =
       (hasConstants (proc s) \<or> (\<exists>x\<in>set ps. filterInherited (md s) x \<and> ?c x))"
    by (rule pipeline_success)
  have h0: "\<not> hasConstants (proc s)"
    by (simp add: fresh newMetadataProcessor_def)
  let ?cs = "filter ?c (map (renderedMember e (proc s))
            (sortMembers (localeCompare e) (filter (filterInherited (md s)) ps)))"
  have iff: "hasConstants (proc s') \<longleftrightarrow> ?cs \<noteq> []"
    using hc h0 by (auto simp: filter_empty_conv)
  show ?thesis
    using cs iff
    by (auto simp: appendAdditionalHeaders_def Let_def constantsHeader_def)
qed

theorem hasConstants_iff_constants_witness:
  "\<exists>s'. transoformMetadataAndCollectHeaders exampleEnv (exampleState exampleTwoProperties) = (None, s') \<and>
      proc (exampleState exampleTwoProperties) = newMetadataProcessor exampleEnv ''1.0'' \<and>
      hasConstants (proc s') \<and>
      map name (case constants (md s') of None \<Rightarrow> [] | Some cs \<Rightarrow> cs) = [''MAX_SIZE''] \<and>
      headers (appendAdditionalHeaders (proc s') examplePage) =
        Some (additionalHeaders (proc s') @ [\<lparr>level = 2, title = ''Constants'', slug = ''constants''\<rparr>])"
proof -
  let ?s' = "snd (transoformMetadataAndCollectHeaders exampleEnv (exampleState exampleTwoProperties))"
  have "fst (transoformMetadataAndCollectHeaders exampleEnv (exampleState exampleTwoProperties)) = None"
    by code_simp
  then have r: "transoformMetadataAndCollectHeaders exampleEnv (exampleState exampleTwoProperties) = (None, ?s')"
    by (metis prod.collapse)
  have f: "proc (exampleState exampleTwoProperties) = newMetadataProcessor exampleEnv ''1.0''"
    by (simp add: exampleState_def)
  have c: "map name (case constants (md ?s') of None \<Rightarrow> [] | Some cs \<Rightarrow> cs) = [''MAX_SIZE'']"
    by code_simp
  have hp: "headers examplePage = None"
    by (simp add: examplePage_def)
  from hasConstants_iff_constants [OF r f, of examplePage] c hp
  have "hasConstants (proc ?s') \<and>
      headers (appendAdditionalHeaders (proc ?s') examplePage) =
        Some (additionalHeaders (proc ?s') @ [\<lparr>level = 2, title = ''Constants'', slug = ''constants''\<rparr>])"
    by auto
  with r f c show ?thesis
    by (intro exI [of _ ?s']) simp
qed

section \<open>Lemmas: the two link patterns\<close>

lemma customLinkMatch_shorter:
  "customLinkMatch s = Some (k, rest) \<Longrightarrow> length rest < length s"
proof -
  assume a: "customLinkMatch s = Some (k, rest)"
  then obtain c t where s: "s = c # t"
    by (cases s) (simp_all add: customLinkMatch_def)
  from a s have "dropWhile customLinkChar t = CHR ''>'' # rest"
    by (auto simp: customLinkMatch_def split: if_splits list.splits)
  then have "length rest < length (dropWhile customLinkChar t)"
    by simp
  also have "\<dots> \<le> length t"
    by (rule length_dropWhile_le)
  finally show ?thesis
    using s by simp
qed

lemma mdLinkMatch_shorter:
  "mdLinkMatch s = Some (txt, k, rest) \<Longrightarrow> length rest < length s"
proof -
  assume a: "mdLinkMatch s = Some (txt, k, rest)"
  then obtain c t where s: "s = c # t"
    by (cases s) (simp_all add: mdLinkMatch_def)
  from a s obtain d e u f where
    t: "dropWhile (\<lambda>x. x \<noteq> CHR '']'') t = d # e # u" and
    u: "dropWhile (\<lambda>x. x \<noteq> CHR '')'') u = f # rest"
    by (auto simp: mdLinkMatch_def split: if_splits list.splits)
  have "length rest < length (dropWhile (\<lambda>x. x \<noteq> CHR '')'') u)"
    using u by simp
  also have "\<dots> \<le> length u"
    by (rule length_dropWhile_le)
  also have "\<dots> \<le> length (dropWhile (\<lambda>x. x \<noteq> CHR '']'') t)"
    using t by simp
  also have "\<dots> \<le> length t"
    by (rule length_dropWhile_le)
  finally show ?thesis
    using s by simp
qed

lemma customLinkMatch_iff:
  "customLinkMatch s = Some (k, rest) \<longleftrightarrow>
     s = ''<'' @ k @ ''>'' @ rest \<and> k \<noteq> [] \<and> CHR ''>'' \<notin> set k \<and> CHR ''/'' \<notin> set k"
proof
  assume a: "customLinkMatch s = Some (k, rest)"
  then obtain t where s: "s = CHR ''<'' # t"
    by (cases s) (auto simp: customLinkMatch_def split: if_splits)
  from a s have d: "dropWhile customLinkChar t = CHR ''>'' # rest"
    and k: "takeWhile customLinkChar t = k" "k \<noteq> []"
    by (auto simp: customLinkMatch_def split: if_splits list.splits)
  have "t = takeWhile customLinkChar t @ dropWhile customLinkChar t"
    by simp
  then have t: "t = k @ CHR ''>'' # rest"
    using d k by simp
  have "\<forall>c\<in>set (takeWhile customLinkChar t). customLinkChar c"
    by (auto dest: set_takeWhileD)
  then have "CHR ''>'' \<notin> set k \<and> CHR ''/'' \<notin> set k"
    using k by (auto simp: customLinkChar_def)
  with s t k show "s = ''<'' @ k @ ''>'' @ rest \<and> k \<noteq> [] \<and> CHR ''>'' \<notin> set k \<and> CHR ''/'' \<notin> set k"
    by simp
next
  assume b: "s = ''<'' @ k @ ''>'' @ rest \<and> k \<noteq> [] \<and> CHR ''>'' \<notin> set k \<and> CHR ''/'' \<notin> set k"
  then have all: "\<forall>c\<in>set k. customLinkChar c"
    by (auto simp: customLinkChar_def)
  have n: "\<not> customLinkChar CHR ''>''"
    by (simp add: customLinkChar_def)
  have tk: "takeWhile customLinkChar (k @ CHR ''>'' # rest) = k"
    using all n by (simp add: takeWhile_append2)
  have dk: "dropWhile customLinkChar (k @ CHR ''>'' # rest) = CHR ''>'' # rest"
    using all n by (simp add: dropWhile_append2)
  show "customLinkMatch s = Some (k, rest)"
    using b tk dk by (simp add: customLinkMatch_def)
qed

lemma customLinkMatch_other:
  "c \<noteq> CHR ''<'' \<Longrightarrow> customLinkMatch (c # t) = None"
  by (simp add: customLinkMatch_def)

lemma replaceCustomLinks_prefix:
  "CHR ''<'' \<notin> set pre \<Longrightarrow>
   replaceCustomLinks resolve (pre @ s) = pre @ replaceCustomLinks resolve s"
  by (induction pre) (auto simp: customLinkMatch_other)

lemma replaceCustomLinks_match:
  assumes "k \<noteq> []" "CHR ''>'' \<notin> set k" "CHR ''/'' \<notin> set k"
  shows "replaceCustomLinks resolve (''<'' @ k @ ''>'' @ post) =
         (case resolve k of Some l \<Rightarrow> markdownLink l | None \<Rightarrow> ''<'' @ k @ ''>'') @
         replaceCustomLinks resolve post"
proof -
  have "customLinkMatch (CHR ''<'' # k @ ''>'' @ post) = Some (k, post)"
    using assms by (simp add: customLinkMatch_iff)
  then show ?thesis
    by simp
qed

lemma replaceCustomLinks_none:
  "replaceCustomLinks (\<lambda>k. None) s = s"
proof (induction s rule: length_induct)
  case (1 s)
  show ?case
  proof (cases s)
    case Nil
    then show ?thesis by simp
  next
    case (Cons c t)
    show ?thesis
    proof (cases "customLinkMatch (c # t)")
      case None
      with 1 Cons show ?thesis by simp
    next
      case (Some a)
      obtain k rest where a: "a = (k, rest)" by (cases a)
      from Some a have eq: "c # t = ''<'' @ k @ ''>'' @ rest"
        by (simp add: customLinkMatch_iff)
      have "length rest < length s"
        using customLinkMatch_shorter [of "c # t" k rest] Some a Cons by simp
      with 1 have "replaceCustomLinks (\<lambda>k. None) rest = rest"
        by simp
      with Some a eq Cons show ?thesis
        by simp
    qed
  qed
qed

lemma replaceCustomLinks_unresolved:
  assumes "\<And>k. resolve k = None"
  shows "replaceCustomLinks resolve s = s"
proof -
  have "resolve = (\<lambda>k. None)"
    using assms by (simp add: fun_eq_iff)
  then show ?thesis
    by (simp add: replaceCustomLinks_none)
qed

lemma mdLinkMatch_iff:
  "mdLinkMatch s = Some (txt, k, rest) \<longleftrightarrow>
     s = ''['' @ txt @ '']('' @ k @ '')'' @ rest \<and> txt \<noteq> [] \<and> CHR '']'' \<notin> set txt \<and>
     k \<noteq> [] \<and> CHR '')'' \<notin> set k"
proof
  let ?P = "\<lambda>x. x \<noteq> CHR '']''" and ?Q = "\<lambda>x. x \<noteq> CHR '')''"
  assume a: "mdLinkMatch s = Some (txt, k, rest)"
  then obtain t where s: "s = CHR ''['' # t"
    by (cases s) (auto simp: mdLinkMatch_def split: if_splits)
  from a s obtain d u where d: "dropWhile ?P t = d # CHR ''('' # u"
    and tx: "takeWhile ?P t = txt" "txt \<noteq> []"
    by (auto simp: mdLinkMatch_def split: if_splits list.splits)
  from a s d tx obtain f where f: "dropWhile ?Q u = f # rest"
    and k: "takeWhile ?Q u = k" "k \<noteq> []"
    by (auto simp: mdLinkMatch_def split: if_splits list.splits)
  have "\<not> ?P (hd (dropWhile ?P t))"
    using d by (intro hd_dropWhile) auto
  then have d': "d = CHR '']''" using d by simp
  have "\<not> ?Q (hd (dropWhile ?Q u))"
    using f by (intro hd_dropWhile) auto
  then have f': "f = CHR '')''" using f by simp
  have "t = takeWhile ?P t @ dropWhile ?P t" "u = takeWhile ?Q u @ dropWhile ?Q u"
    by simp_all
  then have t: "t = txt @ '']('' @ k @ '')'' @ rest"
    using d d' tx f f' k by simp
  have "\<forall>c\<in>set (takeWhile ?P t). ?P c" "\<forall>c\<in>set (takeWhile ?Q u). ?Q c"
    by (auto dest: set_takeWhileD)
  then have "CHR '']'' \<notin> set txt" "CHR '')'' \<notin> set k"
    using tx k by auto
  with s t tx k show "s = ''['' @ txt @ '']('' @ k @ '')'' @ rest \<and> txt \<noteq> [] \<and> CHR '']'' \<notin> set txt \<and>
     k \<noteq> [] \<and> CHR '')'' \<notin> set k"
    by simp
next
  let ?P = "\<lambda>x. x \<noteq> CHR '']''" and ?Q = "\<lambda>x. x \<noteq> CHR '')''"
  assume b: "s = ''['' @ txt @ '']('' @ k @ '')'' @ rest \<and> txt \<noteq> [] \<and> CHR '']'' \<notin> set txt \<and>
     k \<noteq> [] \<and> CHR '')'' \<notin> set k"
  then have all: "\<forall>c\<in>set txt. ?P c" "\<forall>c\<in>set k. ?Q c"
    by auto
  have t1: "takeWhile ?P (txt @ CHR '']'' # CHR ''('' # k @ CHR '')'' # rest) = txt"
    using all by (simp add: takeWhile_append2)
  have d1: "dropWhile ?P (txt @ CHR '']'' # CHR ''('' # k @ CHR '')'' # rest) =
      CHR '']'' # CHR ''('' # k @ CHR '')'' # rest"
    using all by (simp add: dropWhile_append2)
  have t2: "takeWhile ?Q (k @ CHR '')'' # rest) = k"
    using all by (simp add: takeWhile_append2)
  have d2: "dropWhile ?Q (k @ CHR '')'' # rest) = CHR '')'' # rest"
    using all by (simp add: dropWhile_append2)
  show "mdLinkMatch s = Some (txt, k, rest)"
    using b t1 d1 t2 d2 by (simp add: mdLinkMatch_def)
qed

lemma mdLinkMatch_other:
  "c \<noteq> CHR ''['' \<Longrightarrow> mdLinkMatch (c # t) = None"
  by (simp add: mdLinkMatch_def)

lemma replaceMdLinks_prefix:
  "CHR ''['' \<notin> set pre \<Longrightarrow>
   replaceMdLinks resolve (pre @ s) = pre @ replaceMdLinks resolve s"
  by (induction pre) (auto simp: mdLinkMatch_other)

lemma replaceMdLinks_match:
  assumes "txt \<noteq> []" "CHR '']'' \<notin> set txt" "k \<noteq> []" "CHR '')'' \<notin> set k"
  shows "replaceMdLinks resolve (''['' @ txt @ '']('' @ k @ '')'' @ post) =
         (case resolve k of Some l \<Rightarrow> markdownLink l | None \<Rightarrow> ''['' @ txt @ '']('' @ k @ '')'') @
         replaceMdLinks resolve post"
proof -
  have "mdLinkMatch (CHR ''['' # txt @ '']('' @ k @ '')'' @ post) = Some (txt, k, post)"
    using assms by (simp add: mdLinkMatch_iff)
  then show ?thesis
    by simp
qed

lemma replaceMdLinks_none:
  "replaceMdLinks (\<lambda>k. None) s = s"
proof (induction s rule: length_induct)
  case (1 s)
  show ?case
  proof (cases s)
    case Nil
    then show ?thesis by simp
  next
    case (Cons c t)
    show ?thesis
    proof (cases "mdLinkMatch (c # t)")
      case None
      with 1 Cons show ?thesis by simp
    next
      case (Some a)
      obtain tx k rest where a: "a = (tx, k, rest)" by (cases a)
      from Some a have eq: "c # t = ''['' @ tx @ '']('' @ k @ '')'' @ rest"
        by (simp add: mdLinkMatch_iff)
      have "length rest < length s"
        using mdLinkMatch_shorter [of "c # t" tx k rest] Some a Cons by simp
      with 1 have "replaceMdLinks (\<lambda>k. None) rest = rest"
        by simp
      with Some a eq Cons show ?thesis
        by simp
    qed
  qed
qed

lemma replaceMdLinks_unresolved:
  assumes "\<And>k. resolve k = None"
  shows "replaceMdLinks resolve s = s"
proof -
  have "resolve = (\<lambda>k. None)"
    using assms by (simp add: fun_eq_iff)
  then show ?thesis
    by (simp add: replaceMdLinks_none)
qed

text \<open>
  A pass is the one function with the three properties: empty string to empty string,
  a match at the start replaced and the pass continued behind it, any other first
  character copied.
\<close>

lemma replaceCustomLinks_unique:
  assumes nil: "g [] = []"
    and match: "\<And>k post. k \<noteq> [] \<Longrightarrow> CHR ''>'' \<notin> set k \<Longrightarrow> CHR ''/'' \<notin> set k \<Longrightarrow>
       g (''<'' @ k @ ''>'' @ post) =
         (case resolve k of
            Some l \<Rightarrow> ''['' @ link_name l @ '']('' @ link_path l @ '')''
          | None \<Rightarrow> ''<'' @ k @ ''>'') @ g post"
    and other: "\<And>c t. \<not> (\<exists>k post. c # t = ''<'' @ k @ ''>'' @ post \<and>
                   k \<noteq> [] \<and> CHR ''>'' \<notin> set k \<and> CHR ''/'' \<notin> set k) \<Longrightarrow>
       g (c # t) = c # g t"
  shows "g s = replaceCustomLinks resolve s"
proof (induction s rule: length_induct)
  case (1 s)
  show ?case
  proof (cases s)
    case Nil
    with nil show ?thesis by simp
  next
    case (Cons c t)
    show ?thesis
    proof (cases "customLinkMatch (c # t)")
      case None
      have "\<not> (\<exists>k post. c # t = ''<'' @ k @ ''>'' @ post \<and>
                   k \<noteq> [] \<and> CHR ''>'' \<notin> set k \<and> CHR ''/'' \<notin> set k)"
      proof
        assume "\<exists>k post. c # t = ''<'' @ k @ ''>'' @ post \<and>
                   k \<noteq> [] \<and> CHR ''>'' \<notin> set k \<and> CHR ''/'' \<notin> set k"
        then obtain k post where "c # t = ''<'' @ k @ ''>'' @ post \<and>
                   k \<noteq> [] \<and> CHR ''>'' \<notin> set k \<and> CHR ''/'' \<notin> set k"
          by blast
        then have "customLinkMatch (c # t) = Some (k, post)"
          by (rule customLinkMatch_iff [THEN iffD2])
        with None show False by simp
      qed
      then have "g (c # t) = c # g t"
        by (rule other)
      moreover have "g t = replaceCustomLinks resolve t"
        using 1 Cons by simp
      ultimately show ?thesis
        using None Cons by simp
    next
      case (Some a)
      obtain k rest where a: "a = (k, rest)" by (cases a)
      with Some have m: "customLinkMatch (c # t) = Some (k, rest)" by simp
      then have sh: "c # t = ''<'' @ k @ ''>'' @ rest \<and>
          k \<noteq> [] \<and> CHR ''>'' \<notin> set k \<and> CHR ''/'' \<notin> set k"
        by (rule customLinkMatch_iff [THEN iffD1])
      have "length rest < length s"
        using customLinkMatch_shorter [OF m] Cons by simp
      with 1 have ih: "g rest = replaceCustomLinks resolve rest"
        by simp
      have "g (c # t) = (case resolve k of
            Some l \<Rightarrow> ''['' @ link_name l @ '']('' @ link_path l @ '')''
          | None \<Rightarrow> ''<'' @ k @ ''>'') @ g rest"
        using match [of k rest] sh by simp
      moreover have "replaceCustomLinks resolve (c # t) = (case resolve k of
            Some l \<Rightarrow> markdownLink l
          | None \<Rightarrow> ''<'' @ k @ ''>'') @ replaceCustomLinks resolve rest"
        using m by simp
      ultimately show ?thesis
        using ih Cons by (simp add: markdownLink_def split: option.splits)
    qed
  qed
qed

lemma replaceMdLinks_unique:
  assumes nil: "g [] = []"
    and match: "\<And>tx k post. tx \<noteq> [] \<Longrightarrow> CHR '']'' \<notin> set tx \<Longrightarrow> k \<noteq> [] \<Longrightarrow> CHR '')'' \<notin> set k \<Longrightarrow>
       g (''['' @ tx @ '']('' @ k @ '')'' @ post) =
         (case resolve k of
            Some l \<Rightarrow> ''['' @ link_name l @ '']('' @ link_path l @ '')''
          | None \<Rightarrow> ''['' @ tx @ '']('' @ k @ '')'') @ g post"
    and other: "\<And>c t. \<not> (\<exists>tx k post. c # t = ''['' @ tx @ '']('' @ k @ '')'' @ post \<and>
                   tx \<noteq> [] \<and> CHR '']'' \<notin> set tx \<and> k \<noteq> [] \<and> CHR '')'' \<notin> set k) \<Longrightarrow>
       g (c # t) = c # g t"
  shows "g s = replaceMdLinks resolve s"
proof (induction s rule: length_induct)
  case (1 s)
  show ?case
  proof (cases s)
    case Nil
    with nil show ?thesis by simp
  next
    case (Cons c t)
    show ?thesis
    proof (cases "mdLinkMatch (c # t)")
      case None
      have "\<not> (\<exists>tx k post. c # t = ''['' @ tx @ '']('' @ k @ '')'' @ post \<and>
                   tx \<noteq> [] \<and> CHR '']'' \<notin> set tx \<and> k \<noteq> [] \<and> CHR '')'' \<notin> set k)"
      proof
        assume "\<exists>tx k post. c # t = ''['' @ tx @ '']('' @ k @ '')'' @ post \<and>
                   tx \<noteq> [] \<and> CHR '']'' \<notin> set tx \<and> k \<noteq> [] \<and> CHR '')'' \<notin> set k"
        then obtain tx k post where "c # t = ''['' @ tx @ '']('' @ k @ '')'' @ post \<and>
                   tx \<noteq> [] \<and> CHR '']'' \<notin> set tx \<and> k \<noteq> [] \<and> CHR '')'' \<notin> set k"
          by blast
        then have "mdLinkMatch (c # t) = Some (tx, k, post)"
          by (rule mdLinkMatch_iff [THEN iffD2])
        with None show False by simp
      qed
      then have "g (c # t) = c # g t"
        by (rule other)
      moreover have "g t = replaceMdLinks resolve t"
        using 1 Cons by simp
      ultimately show ?thesis
        using None Cons by simp
    next
      case (Some a)
      obtain tx k rest where a: "a = (tx, k, rest)" by (cases a)
      with Some have m: "mdLinkMatch (c # t) = Some (tx, k, rest)" by simp
      then have sh: "c # t = ''['' @ tx @ '']('' @ k @ '')'' @ rest \<and>
          tx \<noteq> [] \<and> CHR '']'' \<notin> set tx \<and> k \<noteq> [] \<and> CHR '')'' \<notin> set k"
        by (rule mdLinkMatch_iff [THEN iffD1])
      have "length rest < length s"
        using mdLinkMatch_shorter [OF m] Cons by simp
      with 1 have ih: "g rest = replaceMdLinks resolve rest"
        by simp
      have "g (c # t) = (case resolve k of
            Some l \<Rightarrow> ''['' @ link_name l @ '']('' @ link_path l @ '')''
          | None \<Rightarrow> ''['' @ tx @ '']('' @ k @ '')'') @ g rest"
        using match [of tx k rest] sh by simp
      moreover have "replaceMdLinks resolve (c # t) = (case resolve k of
            Some l \<Rightarrow> markdownLink l
          | None \<Rightarrow> ''['' @ tx @ '']('' @ k @ '')'') @ replaceMdLinks resolve rest"
        using m by simp
      ultimately show ?thesis
        using ih Cons by (simp add: markdownLink_def split: option.splits)
    qed
  qed
qed

section \<open>Rewriting type links\<close>

text \<open>
  C5 as stated fails for two reasons. First, not every span \<^verbatim>\<open><K>\<close> with a resolving
  key-path is a match of the pattern: a match may contain \<^verbatim>\<open><\<close>, so in
  \<^verbatim>\<open>a < b <Foo.bar>\<close> the one match is \<^verbatim>\<open>< b <Foo.bar>\<close>, whose key-path does not resolve,
  and the string is left as it is although \<^verbatim>\<open>Foo.bar\<close> resolves. Second, the markdown
  link that the first pass writes is a match of the second pass, which hands its path
  to the resolver: with a resolver that also knows the path \<^verbatim>\<open>/api/Foo.html#bar\<close>, the
  text \<^verbatim>\<open><Foo.bar>\<close> is not rewritten to \<^verbatim>\<open>[Foo.bar](/api/Foo.html#bar)\<close>.
\<close>

theorem rewriteTypeLinks_counterexample:
  "getLinkForKeyPath exampleEnv ''Foo.bar'' ''/'' None =
     Some \<lparr>link_name = ''Foo.bar'', link_path = ''/api/Foo.html#bar''\<rparr> \<and>
   rewriteTypeLinks exampleEnv (newMetadataProcessor exampleEnv ''1.0'') ''a < b <Foo.bar>'' =
     ''a < b <Foo.bar>'' \<and>
   getLinkForKeyPath chainEnv ''Foo.bar'' ''/'' None =
     Some \<lparr>link_name = ''Foo.bar'', link_path = ''/api/Foo.html#bar''\<rparr> \<and>
   rewriteTypeLinks chainEnv (newMetadataProcessor chainEnv ''1.0'') ''<Foo.bar>'' =
     ''[bar](/guide/bar.html)''"
proof -
  have 1: "getLinkForKeyPath exampleEnv ''Foo.bar'' ''/'' None =
     Some \<lparr>link_name = ''Foo.bar'', link_path = ''/api/Foo.html#bar''\<rparr>"
    by (simp add: exampleEnv_def)
  have 2: "rewriteTypeLinks exampleEnv (newMetadataProcessor exampleEnv ''1.0'') ''a < b <Foo.bar>'' =
     ''a < b <Foo.bar>''"
    by code_simp
  have 3: "getLinkForKeyPath chainEnv ''Foo.bar'' ''/'' None =
     Some \<lparr>link_name = ''Foo.bar'', link_path = ''/api/Foo.html#bar''\<rparr>"
    by (simp add: chainEnv_def exampleEnv_def)
  have 4: "rewriteTypeLinks chainEnv (newMetadataProcessor chainEnv ''1.0'') ''<Foo.bar>'' =
     ''[bar](/guide/bar.html)''"
    by code_simp
  from 1 2 3 4 show ?thesis
    by (intro conjI)
qed

text \<open>
  C5, as the code has it. \<^verbatim>\<open>rewriteTypeLinks\<close> is a total function of the string (it
  throws nothing and logs nothing): the pass over the angle-bracket matches followed by
  the pass over the markdown-link matches of its result, both with the same resolver
  call. A pass scans the string from left to right and is fixed on every string by
  three equations. The empty string gives the empty string. Where the string starts
  with a match, \<^verbatim>\<open><K>\<close> with \<open>K\<close> not empty and without \<^verbatim>\<open>>\<close> and \<^verbatim>\<open>/\<close> in the first pass,
  \<^verbatim>\<open>[text](K)\<close> with \<open>text\<close> not empty and without \<^verbatim>\<open>]\<close> and \<open>K\<close> not empty and without
  \<^verbatim>\<open>)\<close> in the second, the result is \<^verbatim>\<open>[name](path)\<close> of the resolved link when \<open>K\<close>
  resolves and the matched text, character for character, when it does not, followed
  by the result of the pass on the text behind the match. Where the string does not
  start with a match, its first character is copied and the pass goes on behind it.
  (No other function has these three properties: lemmas \<open>replaceCustomLinks_unique\<close>
  and \<open>replaceMdLinks_unique\<close>.)
  When no key-path resolves, the whole string is unchanged. In particular \<^verbatim>\<open><Foo.bar>\<close>
  is rewritten to \<^verbatim>\<open>[Foo.bar](/api/Foo.html#bar)\<close> when \<^verbatim>\<open>Foo.bar\<close> resolves to that name
  and path and the path does not resolve itself, and \<^verbatim>\<open><Unknown.thing>\<close> is unchanged
  when it does not resolve.
\<close>

theorem rewriteTypeLinks_two_passes:
  "rewriteTypeLinks e p s =
     replaceMdLinks (\<lambda>k. getLinkForKeyPath e k (base p) (linkVersion (versions e) (version p)))
       (replaceCustomLinks
          (\<lambda>k. getLinkForKeyPath e k (base p) (linkVersion (versions e) (version p))) s) \<and>
   replaceCustomLinks resolve [] = [] \<and>
   (k \<noteq> [] \<and> CHR ''>'' \<notin> set k \<and> CHR ''/'' \<notin> set k \<longrightarrow>
      replaceCustomLinks resolve (''<'' @ k @ ''>'' @ post) =
        (case resolve k of
           Some l \<Rightarrow> ''['' @ link_name l @ '']('' @ link_path l @ '')''
         | None \<Rightarrow> ''<'' @ k @ ''>'') @
        replaceCustomLinks resolve post) \<and>
   (\<not> (\<exists>k' post'. c # t = ''<'' @ k' @ ''>'' @ post' \<and>
                   k' \<noteq> [] \<and> CHR ''>'' \<notin> set k' \<and> CHR ''/'' \<notin> set k') \<longrightarrow>
      replaceCustomLinks resolve (c # t) = c # replaceCustomLinks resolve t) \<and>
   replaceMdLinks resolve [] = [] \<and>
   (tx \<noteq> [] \<and> CHR '']'' \<notin> set tx \<and> k \<noteq> [] \<and> CHR '')'' \<notin> set k \<longrightarrow>
      replaceMdLinks resolve (''['' @ tx @ '']('' @ k @ '')'' @ post) =
        (case resolve k of
           Some l \<Rightarrow> ''['' @ link_name l @ '']('' @ link_path l @ '')''
         | None \<Rightarrow> ''['' @ tx @ '']('' @ k @ '')'') @
        replaceMdLinks resolve post) \<and>
   (\<not> (\<exists>tx' k' post'. c # t = ''['' @ tx' @ '']('' @ k' @ '')'' @ post' \<and>
                       tx' \<noteq> [] \<and> CHR '']'' \<notin> set tx' \<and> k' \<noteq> [] \<and> CHR '')'' \<notin> set k') \<longrightarrow>
      replaceMdLinks resolve (c # t) = c # replaceMdLinks resolve t) \<and>
   ((\<forall>k. getLinkForKeyPath e k (base p) (linkVersion (versions e) (version p)) = None) \<longrightarrow>
      rewriteTypeLinks e p s = s) \<and>
   (getLinkForKeyPath e ''Foo.bar'' (base p) (linkVersion (versions e) (version p)) =
      Some \<lparr>link_name = ''Foo.bar'', link_path = ''/api/Foo.html#bar''\<rparr> \<and>
    getLinkForKeyPath e ''/api/Foo.html#bar'' (base p) (linkVersion (versions e) (version p)) = None \<longrightarrow>
      rewriteTypeLinks e p ''<Foo.bar>'' = ''[Foo.bar](/api/Foo.html#bar)'') \<and>
   (getLinkForKeyPath e ''Unknown.thing'' (base p) (linkVersion (versions e) (version p)) = None \<longrightarrow>
      rewriteTypeLinks e p ''<Unknown.thing>'' = ''<Unknown.thing>'')"
proof -
  let ?R = "\<lambda>k. getLinkForKeyPath e k (base p) (linkVersion (versions e) (version p))"
  have c1: "rewriteTypeLinks e p s = replaceMdLinks ?R (replaceCustomLinks ?R s)"
    by (simp add: rewriteTypeLinks_def Let_def)
  have c2: "replaceCustomLinks resolve [] = []"
    by simp
  have c3: "k \<noteq> [] \<and> CHR ''>'' \<notin> set k \<and> CHR ''/'' \<notin> set k \<longrightarrow>
      replaceCustomLinks resolve (''<'' @ k @ ''>'' @ post) =
        (case resolve k of
           Some l \<Rightarrow> ''['' @ link_name l @ '']('' @ link_path l @ '')''
         | None \<Rightarrow> ''<'' @ k @ ''>'') @
        replaceCustomLinks resolve post"
    using replaceCustomLinks_match [of k resolve post]
    by (simp add: markdownLink_def split: option.splits)
  have c4: "replaceCustomLinks resolve (c # t) = c # replaceCustomLinks resolve t"
    if n: "\<not> (\<exists>k' post'. c # t = ''<'' @ k' @ ''>'' @ post' \<and>
                   k' \<noteq> [] \<and> CHR ''>'' \<notin> set k' \<and> CHR ''/'' \<notin> set k')"
  proof -
    have "customLinkMatch (c # t) = None"
    proof (cases "customLinkMatch (c # t)")
      case None
      then show ?thesis .
    next
      case (Some a)
      obtain k' post' where "a = (k', post')" by (cases a)
      with Some have "customLinkMatch (c # t) = Some (k', post')" by simp
      then have "c # t = ''<'' @ k' @ ''>'' @ post' \<and>
          k' \<noteq> [] \<and> CHR ''>'' \<notin> set k' \<and> CHR ''/'' \<notin> set k'"
        by (rule customLinkMatch_iff [THEN iffD1])
      with n show ?thesis by blast
    qed
    then show ?thesis by simp
  qed
  have c5: "replaceMdLinks resolve [] = []"
    by simp
  have c6: "tx \<noteq> [] \<and> CHR '']'' \<notin> set tx \<and> k \<noteq> [] \<and> CHR '')'' \<notin> set k \<longrightarrow>
      replaceMdLinks resolve (''['' @ tx @ '']('' @ k @ '')'' @ post) =
        (case resolve k of
           Some l \<Rightarrow> ''['' @ link_name l @ '']('' @ link_path l @ '')''
         | None \<Rightarrow> ''['' @ tx @ '']('' @ k @ '')'') @
        replaceMdLinks resolve post"
    using replaceMdLinks_match [of tx k resolve post]
    by (simp add: markdownLink_def split: option.splits)
  have c7: "replaceMdLinks resolve (c # t) = c # replaceMdLinks resolve t"
    if n: "\<not> (\<exists>tx' k' post'. c # t = ''['' @ tx' @ '']('' @ k' @ '')'' @ post' \<and>
                       tx' \<noteq> [] \<and> CHR '']'' \<notin> set tx' \<and> k' \<noteq> [] \<and> CHR '')'' \<notin> set k')"
  proof -
    have "mdLinkMatch (c # t) = None"
    proof (cases "mdLinkMatch (c # t)")
      case None
      then show ?thesis .
    next
      case (Some a)
      obtain tx' k' post' where "a = (tx', k', post')" by (cases a)
      with Some have "mdLinkMatch (c # t) = Some (tx', k', post')" by simp
      then have "c # t = ''['' @ tx' @ '']('' @ k' @ '')'' @ post' \<and>
          tx' \<noteq> [] \<and> CHR '']'' \<notin> set tx' \<and> k' \<noteq> [] \<and> CHR '')'' \<notin> set k'"
        by (rule mdLinkMatch_iff [THEN iffD1])
      with n show ?thesis by blast
    qed
    then show ?thesis by simp
  qed
  have c8: "(\<forall>k. ?R k = None) \<longrightarrow> rewriteTypeLinks e p s = s"
    by (simp add: rewriteTypeLinks_def Let_def replaceCustomLinks_unresolved replaceMdLinks_unresolved)
  have c9: "rewriteTypeLinks e p ''<Foo.bar>'' = ''[Foo.bar](/api/Foo.html#bar)''"
    if h: "?R ''Foo.bar'' = Some \<lparr>link_name = ''Foo.bar'', link_path = ''/api/Foo.html#bar''\<rparr> \<and>
           ?R ''/api/Foo.html#bar'' = None"
  proof -
    have "replaceCustomLinks ?R (''<'' @ ''Foo.bar'' @ ''>'' @ []) = ''[Foo.bar](/api/Foo.html#bar)''"
      using h by (subst replaceCustomLinks_match) (simp_all add: markdownLink_def)
    moreover have "replaceMdLinks ?R (''['' @ ''Foo.bar'' @ '']('' @ ''/api/Foo.html#bar'' @ '')'' @ []) =
        ''[Foo.bar](/api/Foo.html#bar)''"
      using h by (subst replaceMdLinks_match) simp_all
    ultimately show ?thesis
      by (simp add: rewriteTypeLinks_def Let_def)
  qed
  have c10: "rewriteTypeLinks e p ''<Unknown.thing>'' = ''<Unknown.thing>''"
    if h: "?R ''Unknown.thing'' = None"
  proof -
    have "replaceCustomLinks ?R (''<'' @ ''Unknown.thing'' @ ''>'' @ []) = ''<Unknown.thing>''"
      using h by (subst replaceCustomLinks_match) simp_all
    moreover have "replaceMdLinks ?R ''<Unknown.thing>'' = ''<Unknown.thing>''"
      using replaceMdLinks_prefix [of "''<Unknown.thing>''" ?R "[]"] by simp
    ultimately show ?thesis
      by (simp add: rewriteTypeLinks_def Let_def)
  qed
  from c4 have c4': "\<not> (\<exists>k' post'. c # t = ''<'' @ k' @ ''>'' @ post' \<and>
                   k' \<noteq> [] \<and> CHR ''>'' \<notin> set k' \<and> CHR ''/'' \<notin> set k') \<longrightarrow>
      replaceCustomLinks resolve (c # t) = c # replaceCustomLinks resolve t"
    by (rule impI)
  from c7 have c7': "\<not> (\<exists>tx' k' post'. c # t = ''['' @ tx' @ '']('' @ k' @ '')'' @ post' \<and>
                       tx' \<noteq> [] \<and> CHR '']'' \<notin> set tx' \<and> k' \<noteq> [] \<and> CHR '')'' \<notin> set k') \<longrightarrow>
      replaceMdLinks resolve (c # t) = c # replaceMdLinks resolve t"
    by (rule impI)
  from c9 have c9': "?R ''Foo.bar'' = Some \<lparr>link_name = ''Foo.bar'', link_path = ''/api/Foo.html#bar''\<rparr> \<and>
           ?R ''/api/Foo.html#bar'' = None \<longrightarrow>
      rewriteTypeLinks e p ''<Foo.bar>'' = ''[Foo.bar](/api/Foo.html#bar)''"
    by (rule impI)
  from c10 have c10': "?R ''Unknown.thing'' = None \<longrightarrow>
      rewriteTypeLinks e p ''<Unknown.thing>'' = ''<Unknown.thing>''"
    by (rule impI)
  show ?thesis
    by (intro conjI c1 c2 c3 c4' c5 c6 c7' c8 c9' c10')
qed

text \<open>
  The theorem at the resolver of the examples: the two strings of C5, a match behind a
  character that starts no match, in either pass, and a string that starts with \<^verbatim>\<open><\<close>
  but not with a match.
\<close>

theorem rewriteTypeLinks_two_passes_witness:
  "getLinkForKeyPath exampleEnv ''Foo.bar'' ''/'' None =
     Some \<lparr>link_name = ''Foo.bar'', link_path = ''/api/Foo.html#bar''\<rparr> \<and>
   getLinkForKeyPath exampleEnv ''/api/Foo.html#bar'' ''/'' None = None \<and>
   getLinkForKeyPath exampleEnv ''Unknown.thing'' ''/'' None = None \<and>
   rewriteTypeLinks exampleEnv (newMetadataProcessor exampleEnv ''1.0'') ''<Foo.bar>'' =
     ''[Foo.bar](/api/Foo.html#bar)'' \<and>
   rewriteTypeLinks exampleEnv (newMetadataProcessor exampleEnv ''1.0'') ''<Unknown.thing>'' =
     ''<Unknown.thing>'' \<and>
   replaceCustomLinks (\<lambda>k. getLinkForKeyPath exampleEnv k ''/'' None) ''x<Foo.bar>'' =
     ''x[Foo.bar](/api/Foo.html#bar)'' \<and>
   replaceMdLinks (\<lambda>k. getLinkForKeyPath exampleEnv k ''/'' None) ''x[y](Foo.bar)'' =
     ''x[Foo.bar](/api/Foo.html#bar)'' \<and>
   replaceCustomLinks (\<lambda>k. getLinkForKeyPath exampleEnv k ''/'' None) ''</'' = ''</''"
proof -
  let ?p = "newMetadataProcessor exampleEnv ''1.0''"
  let ?R = "\<lambda>k. getLinkForKeyPath exampleEnv k ''/'' None"
  have v: "linkVersion (versions exampleEnv) (version ?p) = None" "base ?p = ''/''"
    by (simp_all add: linkVersion_def exampleEnv_def newMetadataProcessor_def)
  have r: "getLinkForKeyPath exampleEnv ''Foo.bar'' ''/'' None =
       Some \<lparr>link_name = ''Foo.bar'', link_path = ''/api/Foo.html#bar''\<rparr>"
    "getLinkForKeyPath exampleEnv ''/api/Foo.html#bar'' ''/'' None = None"
    "getLinkForKeyPath exampleEnv ''Unknown.thing'' ''/'' None = None"
    by (simp_all add: exampleEnv_def)
  note t = rewriteTypeLinks_two_passes
  note examples = t [where e = exampleEnv and p = ?p, THEN conjunct2, THEN conjunct2,
      THEN conjunct2, THEN conjunct2, THEN conjunct2, THEN conjunct2, THEN conjunct2,
      THEN conjunct2]
  have a: "rewriteTypeLinks exampleEnv ?p ''<Foo.bar>'' = ''[Foo.bar](/api/Foo.html#bar)''"
    using examples r by (simp only: v)
  have b: "rewriteTypeLinks exampleEnv ?p ''<Unknown.thing>'' = ''<Unknown.thing>''"
    using examples r by (simp only: v)
  have m1: "replaceCustomLinks ?R (''<'' @ ''Foo.bar'' @ ''>'' @ []) =
      ''[Foo.bar](/api/Foo.html#bar)'' @ replaceCustomLinks ?R []"
    using t [where resolve = ?R and k = "''Foo.bar''" and post = "[]" and tx = "''y''"
        and s = "[]" and c = "CHR ''x''" and t = "[]"] r(1)
    by simp
  have e1: "replaceCustomLinks ?R [] = []"
    using t [where resolve = ?R and s = "[]" and c = "CHR ''x''" and t = "[]"] by simp
  have n1: "replaceCustomLinks ?R (CHR ''x'' # ''<Foo.bar>'') = CHR ''x'' # replaceCustomLinks ?R ''<Foo.bar>''"
    using t [where resolve = ?R and c = "CHR ''x''" and t = "''<Foo.bar>''" and s = "[]"] by simp
  have c: "replaceCustomLinks ?R ''x<Foo.bar>'' = ''x[Foo.bar](/api/Foo.html#bar)''"
    using n1 m1 e1 by simp
  have m2: "replaceMdLinks ?R (''['' @ ''y'' @ '']('' @ ''Foo.bar'' @ '')'' @ []) =
      ''[Foo.bar](/api/Foo.html#bar)'' @ replaceMdLinks ?R []"
    using t [where resolve = ?R and k = "''Foo.bar''" and post = "[]" and tx = "''y''"
        and s = "[]" and c = "CHR ''x''" and t = "[]"] r(1)
    by simp
  have e2: "replaceMdLinks ?R [] = []"
    using t [where resolve = ?R and s = "[]" and c = "CHR ''x''" and t = "[]"] by simp
  have n2: "replaceMdLinks ?R (CHR ''x'' # ''[y](Foo.bar)'') = CHR ''x'' # replaceMdLinks ?R ''[y](Foo.bar)''"
    using t [where resolve = ?R and c = "CHR ''x''" and t = "''[y](Foo.bar)''" and s = "[]"] by simp
  have d: "replaceMdLinks ?R ''x[y](Foo.bar)'' = ''x[Foo.bar](/api/Foo.html#bar)''"
    using n2 m2 e2 by simp
  have shape: "\<not> (\<exists>k' post'. ''</'' = ''<'' @ k' @ ''>'' @ post' \<and>
       k' \<noteq> [] \<and> CHR ''>'' \<notin> set k' \<and> CHR ''/'' \<notin> set k')"
  proof
    assume "\<exists>k' post'. ''</'' = ''<'' @ k' @ ''>'' @ post' \<and>
       k' \<noteq> [] \<and> CHR ''>'' \<notin> set k' \<and> CHR ''/'' \<notin> set k'"
    then obtain k' post' where eq: "''/'' = k' @ ''>'' @ post'" and ne: "k' \<noteq> []"
      and sl: "CHR ''/'' \<notin> set k'"
      by auto
    from ne obtain x xs where k': "k' = x # xs" by (cases k') auto
    with eq have "x = CHR ''/''" by simp
    with sl k' show False by simp
  qed
  have n3: "replaceCustomLinks ?R (CHR ''<'' # ''/'') = CHR ''<'' # replaceCustomLinks ?R ''/''"
    using t [where resolve = ?R and c = "CHR ''<''" and t = "''/''" and s = "[]"] shape by simp
  have n4: "replaceCustomLinks ?R (CHR ''/'' # []) = CHR ''/'' # replaceCustomLinks ?R []"
    using t [where resolve = ?R and c = "CHR ''/''" and t = "[]" and s = "[]"] by simp
  have f: "replaceCustomLinks ?R ''</'' = ''</''"
    using n3 n4 e1 by simp
  from r a b c d f show ?thesis
    by (intro conjI)
qed

section \<open>The version handed to the resolver\<close>

text \<open>
  C6 as stated fails: it asks for the null version whenever a single version is
  declared. With the single declared version \<^verbatim>\<open>1.0\<close> and a processor for the version \<^verbatim>\<open>next\<close>
  (the version of every page that has none of its own), the resolver is called with
  the version \<^verbatim>\<open>next\<close>, not with null: the path it returns shows the argument.
\<close>

theorem link_version_single_declared_counterexample:
  "versions exampleEnv = [''1.0''] \<and>
   linkVersion (versions exampleEnv) (version (newMetadataProcessor exampleEnv ''next'')) = Some ''next'' \<and>
   rewriteTypeLinks exampleEnv (newMetadataProcessor exampleEnv ''next'') ''<Foo.bar>'' =
     ''[Foo.bar](/next/api/Foo.html#bar)''"
  by code_simp

text \<open>
  C6, as the code has it. The version argument of every resolver call in
  \<^verbatim>\<open>rewriteTypeLinks\<close> is \<open>linkVersion\<close> of the declared versions and the processor's
  version (the rewritten text depends on the resolver only through its values at the
  processor's base path and that version). It is null exactly when no version is
  declared or the processor's version is the first declared one; otherwise, so whenever
  at least one version is declared and the processor's version is not the first, it is
  the processor's own version.
\<close>

theorem link_version_argument:
  "(linkVersion vs v = None \<longleftrightarrow> vs = [] \<or> (\<exists>rest. vs = v # rest)) \<and>
   (linkVersion vs v \<noteq> None \<longrightarrow> linkVersion vs v = Some v) \<and>
   (versions e = vs \<and> version p = v \<and>
    (\<forall>k. getLinkForKeyPath e' k (base p) (linkVersion vs v) =
         getLinkForKeyPath e k (base p) (linkVersion vs v)) \<and>
    versions e' = vs \<longrightarrow>
    rewriteTypeLinks e' p s = rewriteTypeLinks e p s)"
proof -
  have a: "linkVersion vs v = None \<longleftrightarrow> vs = [] \<or> (\<exists>rest. vs = v # rest)"
    by (cases vs) (auto simp: linkVersion_def)
  have b: "linkVersion vs v \<noteq> None \<longrightarrow> linkVersion vs v = Some v"
    by (cases vs) (auto simp: linkVersion_def)
  have c: "rewriteTypeLinks e' p s = rewriteTypeLinks e p s"
    if "versions e = vs \<and> version p = v \<and>
    (\<forall>k. getLinkForKeyPath e' k (base p) (linkVersion vs v) =
         getLinkForKeyPath e k (base p) (linkVersion vs v)) \<and>
    versions e' = vs"
    using that by (simp add: rewriteTypeLinks_def Let_def)
  show ?thesis
    using a b c by blast
qed

theorem link_version_argument_witness:
  "linkVersion [] ''next'' = None \<and>
   linkVersion [''2.0'', ''1.0''] ''2.0'' = None \<and>
   linkVersion [''2.0'', ''1.0''] ''1.0'' = Some ''1.0'' \<and>
   linkVersion [''1.0''] ''next'' = Some ''next'' \<and>
   rewriteTypeLinks (exampleEnv\<lparr>md_render := (\<lambda>rule s. Inl RenderError)\<rparr>)
      (newMetadataProcessor exampleEnv ''next'') ''<Foo.bar>'' =
   rewriteTypeLinks exampleEnv (newMetadataProcessor exampleEnv ''next'') ''<Foo.bar>''"
proof -
  note t = link_version_argument
  have 1: "linkVersion [] ''next'' = None"
    using t [of "[]" "''next''"] by simp
  have 2: "linkVersion [''2.0'', ''1.0''] ''2.0'' = None"
    using t [of "[''2.0'', ''1.0'']" "''2.0''"] by simp
  have "linkVersion [''2.0'', ''1.0''] ''1.0'' \<noteq> None"
    using t [of "[''2.0'', ''1.0'']" "''1.0''"] by simp
  then have 3: "linkVersion [''2.0'', ''1.0''] ''1.0'' = Some ''1.0''"
    using t [of "[''2.0'', ''1.0'']" "''1.0''"] by blast
  have "linkVersion [''1.0''] ''next'' \<noteq> None"
    using t [of "[''1.0'']" "''next''"] by simp
  then have 4: "linkVersion [''1.0''] ''next'' = Some ''next''"
    using t [of "[''1.0'']" "''next''"] by blast
  let ?e' = "exampleEnv\<lparr>md_render := (\<lambda>rule s. Inl RenderError)\<rparr>"
  let ?p = "newMetadataProcessor exampleEnv ''next''"
  have 5: "rewriteTypeLinks ?e' ?p ''<Foo.bar>'' = rewriteTypeLinks exampleEnv ?p ''<Foo.bar>''"
    using t [of "[''1.0'']" "''next''" exampleEnv ?p ?e' "''<Foo.bar>''"]
    by (simp add: exampleEnv_def newMetadataProcessor_def)
  from 1 2 3 4 5 show ?thesis
    by (intro conjI)
qed

section \<open>Lookup by lower-cased key\<close>

lemma findLowerCasedLoop_find:
  "findLowerCasedLoop e tbl q = map_option snd (find (\<lambda>(k, m). toLowerCase e k = q) tbl)"
  by (induction e tbl q rule: findLowerCasedLoop.induct) simp_all

text \<open>
  C9 as stated fails: it asks for a comparison of lower-cased names on both sides.
  The store of the example holds the type \<^verbatim>\<open>Foo\<close>. The queries \<^verbatim>\<open>FOO\<close>, which differs
  from the stored name only in letter case, and \<^verbatim>\<open>Foo\<close>, the stored name itself, find
  nothing.
\<close>

theorem lower_cased_lookup_counterexample:
  "findMetadata exampleSite ''Foo'' ''1.0'' = Some exampleMetadata \<and>
   toLowerCase exampleEnv ''Foo'' = toLowerCase exampleEnv ''FOO'' \<and>
   findMetadataWithLowerCasedKey exampleEnv exampleSite ''FOO'' ''1.0'' = None \<and>
   findMetadataWithLowerCasedKey exampleEnv exampleSite ''Foo'' ''1.0'' = None"
  by (simp add: findMetadata_def findMetadataWithLowerCasedKey_def exampleSite_def
        exampleEnv_def asciiToLowerCase_def)

text \<open>
  C9, as the code has it. The lookup returns the metadata of the first stored type of
  the version whose lower-cased name is identical to the query as it was passed (the
  query itself is not lower-cased), and no match when the version has no such type or
  is unknown. So a query that is already lower-case finds a stored name that differs
  from it only in letter case.
\<close>

theorem lower_cased_lookup:
  "findMetadataWithLowerCasedKey e st q v =
     (case metadataStore st v of
        None \<Rightarrow> None
      | Some tbl \<Rightarrow> map_option snd (find (\<lambda>(k, m). toLowerCase e k = q) tbl)) \<and>
   (findMetadataWithLowerCasedKey e st q v = Some m \<longrightarrow>
      (\<exists>tbl k. metadataStore st v = Some tbl \<and> (k, m) \<in> set tbl \<and> toLowerCase e k = q)) \<and>
   ((\<exists>m'. findMetadataWithLowerCasedKey e st q v = Some m') \<longleftrightarrow>
      (\<exists>tbl k m'. metadataStore st v = Some tbl \<and> (k, m') \<in> set tbl \<and> toLowerCase e k = q)) \<and>
   (toLowerCase e q = q \<and> metadataStore st v = Some tbl \<and> (k, m) \<in> set tbl \<and>
    toLowerCase e k = toLowerCase e q \<longrightarrow>
      (\<exists>m'. findMetadataWithLowerCasedKey e st q v = Some m'))"
proof -
  let ?P = "\<lambda>(k, m). toLowerCase e k = q"
  have a: "findMetadataWithLowerCasedKey e st q v =
     (case metadataStore st v of
        None \<Rightarrow> None
      | Some tbl \<Rightarrow> map_option snd (find ?P tbl))"
    by (simp add: findMetadataWithLowerCasedKey_def findLowerCasedLoop_find split: option.splits)
  have some: "find ?P t = Some (k', m') \<Longrightarrow> (k', m') \<in> set t \<and> toLowerCase e k' = q" for t k' m'
    by (induction t) (auto split: if_splits)
  have none: "find ?P t = None \<longleftrightarrow> \<not> (\<exists>k' m'. (k', m') \<in> set t \<and> toLowerCase e k' = q)" for t
    by (auto simp: find_None_iff)
  have b: "findMetadataWithLowerCasedKey e st q v = Some m \<longrightarrow>
      (\<exists>tbl k. metadataStore st v = Some tbl \<and> (k, m) \<in> set tbl \<and> toLowerCase e k = q)"
    unfolding a using some by (fastforce split: option.splits)
  have c: "(\<exists>m'. findMetadataWithLowerCasedKey e st q v = Some m') \<longleftrightarrow>
      (\<exists>tbl k m'. metadataStore st v = Some tbl \<and> (k, m') \<in> set tbl \<and> toLowerCase e k = q)"
  proof (cases "metadataStore st v")
    case None
    then show ?thesis by (simp add: a)
  next
    case (Some t)
    show ?thesis
    proof (cases "find ?P t")
      case None
      with Some none [of t] show ?thesis by (simp add: a)
    next
      case (Some r)
      obtain k' m' where r: "r = (k', m')" by (cases r)
      with Some \<open>metadataStore st v = Some t\<close> some [of t k' m'] show ?thesis
        by (auto simp: a)
    qed
  qed
  have d: "toLowerCase e q = q \<and> metadataStore st v = Some tbl \<and> (k, m) \<in> set tbl \<and>
    toLowerCase e k = toLowerCase e q \<longrightarrow> (\<exists>m'. findMetadataWithLowerCasedKey e st q v = Some m')"
    using c by auto
  show ?thesis
    using a b c d by blast
qed

theorem lower_cased_lookup_witness:
  "toLowerCase exampleEnv ''foo'' = ''foo'' \<and> toLowerCase exampleEnv ''Foo'' = toLowerCase exampleEnv ''foo'' \<and>
   metadataStore exampleSite ''1.0'' = Some [(''Foo'', exampleMetadata), (''Bar'', exampleTwoProperties)] \<and>
   (\<exists>m'. findMetadataWithLowerCasedKey exampleEnv exampleSite ''foo'' ''1.0'' = Some m')"
proof -
  have l: "toLowerCase exampleEnv ''foo'' = ''foo''" "toLowerCase exampleEnv ''Foo'' = toLowerCase exampleEnv ''foo''"
    by (simp_all add: exampleEnv_def asciiToLowerCase_def)
  have st: "metadataStore exampleSite ''1.0'' =
      Some [(''Foo'', exampleMetadata), (''Bar'', exampleTwoProperties)]"
    by (simp add: exampleSite_def)
  from lower_cased_lookup
    [where e = exampleEnv and st = exampleSite and q = "''foo''" and v = "''1.0''" and m = exampleMetadata
        and tbl = "[(''Foo'', exampleMetadata), (''Bar'', exampleTwoProperties)]" and k = "''Foo''"]
    l st
  have "\<exists>m'. findMetadataWithLowerCasedKey exampleEnv exampleSite ''foo'' ''1.0'' = Some m'"
    by simp
  with l st show ?thesis
    by (intro conjI)
qed

section \<open>The link rule of the renderer\<close>

lemma seqSteps_Cons_Some:
  "seqSteps (f # fs) s = (Some x, s') \<longleftrightarrow>
     f s = (Some x, s') \<or> (\<exists>s1. f s = (None, s1) \<and> seqSteps fs s1 = (Some x, s'))"
  by (auto split: prod.splits option.splits)

lemma transformMembers_frame:
  assumes "transformMembersAndCollectHeaders e k s = (r, s')"
  shows "link_open s' = link_open s \<and> (properties (md s) \<noteq> None \<longrightarrow> properties (md s') \<noteq> None)"
proof (cases "getMembers k (md s)")
  case None
  with assms show ?thesis by (simp add: transformMembersAndCollectHeaders_def)
next
  case (Some xs)
  show ?thesis
  proof (cases xs)
    case Nil
    with Some assms show ?thesis by (simp add: transformMembersAndCollectHeaders_def)
  next
    case (Cons y ys)
    obtain err xs' hc' hs' where
      loop: "transformLoop e (renderMember (renderMarkdown e (link_open s) (proc s))) k (y # ys)
               (hasConstants (proc s)) [] = (err, xs', hc', hs')"
      by (metis prod_cases4)
    from assms Some Cons loop show ?thesis
      by (cases k; cases err) (auto simp: transformMembersAndCollectHeaders_def Let_def split: if_splits)
  qed
qed

lemma link_rule_after_exception:
  assumes run: "transoformMetadataAndCollectHeaders e s = (Some x, s')"
    and lists: "properties (md s) = Some ps" "methods (md s) = Some ms" "events (md s) = Some es"
  shows "link_open s' = PassThrough"
proof -
  let ?s1 = "s\<lparr>md := (md s)\<lparr>type_description := None, type_examples := None\<rparr>\<rparr>"
  let ?keep = "filterInherited (md ?s1)"
  let ?m2 = "(md ?s1)\<lparr>properties := Some (filter ?keep ps), methods := Some (filter ?keep ms),
               events := Some (filter ?keep es)\<rparr>"
  let ?s2 = "?s1\<lparr>md := ?m2\<rparr>"
  have st1: "deleteDescriptionAndExamples s = (None, ?s1)"
    by (simp add: deleteDescriptionAndExamples_def)
  have st2: "onMetadata filterInheritedMembers ?s1 = (None, ?s2)"
    using lists filterInheritedMembers_Some [of "md ?s1" ps ms es]
    by (simp add: onMetadata_def)
  obtain s3 where st3: "sortProperties e ?s2 = (None, s3)" and p3: "properties (md s3) \<noteq> None"
    by (simp add: sortProperties_def sortByName_def)
  obtain s4 where st4: "sortMethods e s3 = (None, s4)" and p4: "properties (md s4) \<noteq> None"
    using p3 by (simp add: sortMethods_def)
  let ?s5 = "s4\<lparr>link_open := PassThrough\<rparr>"
  have st5: "setLinkOpen PassThrough s4 = (None, ?s5)"
    by (simp add: setLinkOpen_def)
  from run st1 st2 st3 st4 st5 have rest: "seqSteps
        [renderTypeSummary e,
         transformMembersAndCollectHeaders e Properties,
         transformMembersAndCollectHeaders e Methods,
         transformMembersAndCollectHeaders e Events,
         setLinkOpen (link_open s),
         onMetadata splitPropertiesAndConstants] ?s5 = (Some x, s')"
    by (simp add: transoformMetadataAndCollectHeaders_def Let_def)
  obtain r6 s6 where st6: "renderTypeSummary e ?s5 = (r6, s6)"
    by (cases "renderTypeSummary e ?s5")
  have f6: "link_open s6 = PassThrough" "properties (md s6) \<noteq> None"
    using st6 p4 by (auto simp: renderTypeSummary_def split: sum.splits)
  obtain r7 s7 where st7: "transformMembersAndCollectHeaders e Properties s6 = (r7, s7)"
    by (cases "transformMembersAndCollectHeaders e Properties s6")
  note f7 = transformMembers_frame [OF st7]
  obtain r8 s8 where st8: "transformMembersAndCollectHeaders e Methods s7 = (r8, s8)"
    by (cases "transformMembersAndCollectHeaders e Methods s7")
  note f8 = transformMembers_frame [OF st8]
  obtain r9 s9 where st9: "transformMembersAndCollectHeaders e Events s8 = (r9, s9)"
    by (cases "transformMembersAndCollectHeaders e Events s8")
  note f9 = transformMembers_frame [OF st9]
  have p9: "properties (md s9) \<noteq> None" "link_open s7 = PassThrough" "link_open s8 = PassThrough"
    "link_open s9 = PassThrough"
    using f6 f7 f8 f9 by simp_all
  have split_ok: "fst (onMetadata splitPropertiesAndConstants (s9\<lparr>link_open := link_open s\<rparr>)) = None"
    using p9(1) by (auto simp: onMetadata_def splitPropertiesAndConstants_def split: prod.splits)
  show ?thesis
  proof (cases r6)
    case (Some a)
    with rest st6 f6 show ?thesis by auto
  next
    case n6: None
    show ?thesis
    proof (cases r7)
      case (Some a)
      with rest st6 n6 st7 p9 show ?thesis by auto
    next
      case n7: None
      show ?thesis
      proof (cases r8)
        case (Some a)
        with rest st6 n6 st7 n7 st8 p9 show ?thesis by auto
      next
        case n8: None
        show ?thesis
        proof (cases r9)
          case (Some a)
          with rest st6 n6 st7 n7 st8 n8 st9 p9 show ?thesis by auto
        next
          case n9: None
          with rest st6 n6 st7 n7 st8 n8 st9 split_ok show ?thesis
            by (auto simp: setLinkOpen_def split: prod.splits option.splits)
        qed
      qed
    qed
  qed
qed

text \<open>
  C8 fails on the code. For the example type without a summary, \<^verbatim>\<open>renderMarkdown\<close>
  throws a TypeError at the first render call; for a renderer that throws, the
  exception is the renderer's. In both runs the link rule was the router-link rule on
  entry and is the pass-through rule when the call ends: the assignment that restores
  it is not reached.
\<close>

theorem link_rule_not_restored_on_exception:
  "link_open (exampleState (exampleMetadata\<lparr>type_summary := None\<rparr>)) = RouterLink \<and>
   fst (transoformMetadataAndCollectHeaders exampleEnv
          (exampleState (exampleMetadata\<lparr>type_summary := None\<rparr>))) = Some TypeError \<and>
   link_open (snd (transoformMetadataAndCollectHeaders exampleEnv
          (exampleState (exampleMetadata\<lparr>type_summary := None\<rparr>)))) = PassThrough \<and>
   fst (transoformMetadataAndCollectHeaders (exampleEnv\<lparr>md_render := (\<lambda>rule s. Inl RenderError)\<rparr>)
          (exampleState exampleMetadata)) = Some RenderError \<and>
   link_open (snd (transoformMetadataAndCollectHeaders
          (exampleEnv\<lparr>md_render := (\<lambda>rule s. Inl RenderError)\<rparr>)
          (exampleState exampleMetadata))) = PassThrough"
  by code_simp

section \<open>The processor cache\<close>

lemma map_of_replace_same:
  "map_of tbl t = Some m \<Longrightarrow>
   map_of (map (\<lambda>(k, x). if k = t then (k, m') else (k, x)) tbl) t = Some m'"
  by (induction tbl) (auto split: if_splits)

lemma map_of_replace_other:
  "t2 \<noteq> t \<Longrightarrow>
   map_of (map (\<lambda>(k, x). if k = t then (k, m') else (k, x)) tbl) t2 = map_of tbl t2"
  by (induction tbl) auto

lemma findMetadata_storeMetadata_same:
  "findMetadata st t v = Some m \<Longrightarrow> findMetadata (storeMetadata t v m' st) t v = Some m'"
  by (auto simp: findMetadata_def storeMetadata_def map_of_replace_same split: option.splits)

lemma findMetadata_storeMetadata_other:
  "t2 \<noteq> t \<or> v2 \<noteq> v \<Longrightarrow> findMetadata (storeMetadata t v m' st) t2 v2 = findMetadata st t2 v2"
  by (auto simp: findMetadata_def storeMetadata_def map_of_replace_other split: option.splits)

lemma findMetadata_fields:
  "metadataStore st' = metadataStore st \<Longrightarrow> findMetadata st' = findMetadata st"
  by (simp add: findMetadata_def fun_eq_iff)

lemma lookupProcessed_fields:
  "processed st' = processed st \<Longrightarrow> lookupProcessed st' = lookupProcessed st"
  by (simp add: lookupProcessed_def fun_eq_iff)

lemma processed_storeMetadata [simp]: "processed (storeMetadata t v m st) = processed st"
  by (simp add: storeMetadata_def split: option.splits)

lemma prototypesIntact_storeMetadata [simp]:
  "prototypesIntact (storeMetadata t v m st) = prototypesIntact st"
  by (simp add: storeMetadata_def split: option.splits)

lemma metadataStore_storeProcessed [simp]:
  "metadataStore (storeProcessed v t p st) = metadataStore st"
  by (simp add: storeProcessed_def)

lemma prototypesIntact_storeProcessed [simp]:
  "prototypesIntact (storeProcessed v t p st) = prototypesIntact st"
  by (simp add: storeProcessed_def)

lemma lookupProcessed_storeProcessed_same:
  "lookupProcessed (storeProcessed v t p st) v t = Entry p"
  by (simp add: lookupProcessed_def storeProcessed_def)

lemma lookupProcessed_storeProcessed_other:
  "t2 \<noteq> t \<or> v2 \<noteq> v \<Longrightarrow> \<not> objectPrototypeKey t2 \<Longrightarrow>
   lookupProcessed (storeProcessed v t p st) v2 t2 = lookupProcessed st v2 t2"
  by (auto simp: lookupProcessed_def storeProcessed_def split: option.splits)

lemma ownKeys_ordinary:
  "\<not> objectPrototypeKey v \<Longrightarrow> \<not> objectPrototypeKey t \<Longrightarrow> ownKeys v t"
  by (auto simp: ownKeys_def objectPrototypeKey_def)

lemma extendPageData_cached:
  assumes "apiPathPattern_test (regularPath pg)"
    and "findMetadata st (pageTypeName pg) (pageVersion pg) = Some m"
    and "prototypesIntact st" "ownKeys (pageVersion pg) (pageTypeName pg)"
    and "lookupProcessed st (pageVersion pg) (pageTypeName pg) = Entry p"
  shows "extendPageData e pg st = (None, appendAdditionalHeaders p (apiPage pg), st)"
  using assms by (simp add: extendPageData_def Let_def apiPage_def)

lemma extendPageData_inherited:
  assumes "apiPathPattern_test (regularPath pg)"
    and "findMetadata st (pageTypeName pg) (pageVersion pg) = Some m"
    and "prototypesIntact st" "ownKeys (pageVersion pg) (pageTypeName pg)"
    and "lookupProcessed st (pageVersion pg) (pageTypeName pg) = InheritedMember"
  shows "extendPageData e pg st = (Some TypeError, apiPage pg, st)"
  using assms by (simp add: extendPageData_def Let_def apiPage_def)

lemma extendPageData_first:
  assumes "apiPathPattern_test (regularPath pg)"
    and "findMetadata st (pageTypeName pg) (pageVersion pg) = Some m"
    and "prototypesIntact st" "ownKeys (pageVersion pg) (pageTypeName pg)"
    and "lookupProcessed st (pageVersion pg) (pageTypeName pg) = NoEntry"
    and "transoformMetadataAndCollectHeaders e
           \<lparr>md = m, proc = newMetadataProcessor e (pageVersion pg),
            link_open = renderer_link_open st\<rparr> = (None, s')"
  shows "extendPageData e pg st =
           (None, appendAdditionalHeaders (proc s') (apiPage pg),
            storeProcessed (pageVersion pg) (pageTypeName pg) (proc s')
              ((storeMetadata (pageTypeName pg) (pageVersion pg) (md s') st)
                 \<lparr>renderer_link_open := link_open s'\<rparr>))"
  using assms by (simp add: extendPageData_def Let_def apiPage_def)

lemma extendPageData_throws:
  assumes "apiPathPattern_test (regularPath pg)"
    and "findMetadata st (pageTypeName pg) (pageVersion pg) = Some m"
    and "prototypesIntact st" "ownKeys (pageVersion pg) (pageTypeName pg)"
    and "lookupProcessed st (pageVersion pg) (pageTypeName pg) = NoEntry"
    and "transoformMetadataAndCollectHeaders e
           \<lparr>md = m, proc = newMetadataProcessor e (pageVersion pg),
            link_open = renderer_link_open st\<rparr> = (Some err, s')"
  shows "extendPageData e pg st =
           (Some err, apiPage pg,
            (storeMetadata (pageTypeName pg) (pageVersion pg) (md s') st)
               \<lparr>renderer_link_open := link_open s'\<rparr>)"
  using assms by (simp add: extendPageData_def Let_def apiPage_def)

text \<open>
  One request, for keys within the plugin's own objects, seen from a pair \<open>(v, t)\<close> with
  an ordinary type name: the prototypes stay intact; a request for another pair changes
  neither the cache entry nor the stored metadata of the pair; a cached processor and
  the metadata stored with it stay whatever the request is.
\<close>

lemma extendPageData_step:
  assumes i: "prototypesIntact st"
    and o: "ownKeys (pageVersion pg) (pageTypeName pg)"
    and t: "\<not> objectPrototypeKey t"
    and r: "extendPageData e pg st = (err, pg', st')"
  shows "prototypesIntact st' \<and>
         (\<not> (pageVersion pg = v \<and> pageTypeName pg = t) \<longrightarrow>
            lookupProcessed st' v t = lookupProcessed st v t \<and>
            findMetadata st' t v = findMetadata st t v) \<and>
         (lookupProcessed st v t = Entry p \<longrightarrow>
            lookupProcessed st' v t = Entry p \<and> findMetadata st' t v = findMetadata st t v)"
proof (cases "apiPathPattern_test (regularPath pg)")
  case False
  with r have "st' = st" by (simp add: extendPageData_def)
  with i show ?thesis by simp
next
  case api: True
  let ?t = "pageTypeName pg" and ?v = "pageVersion pg"
  show ?thesis
  proof (cases "findMetadata st ?t ?v")
    case None
    with r api have "st' = st" by (simp add: extendPageData_def Let_def)
    with i show ?thesis by simp
  next
    case (Some m)
    show ?thesis
    proof (cases "lookupProcessed st ?v ?t")
      case (Entry q)
      from extendPageData_cached [OF api Some i o Entry, of e] r have "st' = st"
        by simp
      with i show ?thesis by simp
    next
      case InheritedMember
      from extendPageData_inherited [OF api Some i o InheritedMember, of e] r have "st' = st"
        by simp
      with i show ?thesis by simp
    next
      case NoEntry
      let ?s0 = "\<lparr>md = m, proc = newMetadataProcessor e ?v, link_open = renderer_link_open st\<rparr>"
      obtain e1 s1 where run: "transoformMetadataAndCollectHeaders e ?s0 = (e1, s1)"
        by (cases "transoformMetadataAndCollectHeaders e ?s0")
      let ?st1 = "(storeMetadata ?t ?v (md s1) st)\<lparr>renderer_link_open := link_open s1\<rparr>"
      have i1: "prototypesIntact ?st1"
        using i by simp
      have l1: "lookupProcessed ?st1 v t = lookupProcessed st v t"
        by (simp add: lookupProcessed_def)
      have f1: "findMetadata ?st1 t v = findMetadata st t v" if "t \<noteq> ?t \<or> v \<noteq> ?v"
        using findMetadata_storeMetadata_other [OF that, of "md s1" st]
        by (simp add: findMetadata_def)
      have ne: "t \<noteq> ?t \<or> v \<noteq> ?v" if "lookupProcessed st v t = Entry p"
        using that NoEntry by auto
      show ?thesis
      proof (cases e1)
        case (Some x)
        with run have "transoformMetadataAndCollectHeaders e ?s0 = (Some x, s1)" by simp
        from extendPageData_throws [OF api \<open>findMetadata st ?t ?v = Some m\<close> i o NoEntry this] r
        have "st' = ?st1" by simp
        with i1 l1 f1 ne show ?thesis by auto
      next
        case None
        with run have "transoformMetadataAndCollectHeaders e ?s0 = (None, s1)" by simp
        from extendPageData_first [OF api \<open>findMetadata st ?t ?v = Some m\<close> i o NoEntry this] r
        have st': "st' = storeProcessed ?v ?t (proc s1) ?st1" by simp
        have i2: "prototypesIntact st'"
          unfolding st' using i by simp
        have l2: "lookupProcessed st' v t = lookupProcessed ?st1 v t" if "t \<noteq> ?t \<or> v \<noteq> ?v"
          unfolding st' using that t by (rule lookupProcessed_storeProcessed_other)
        have f2: "findMetadata st' t v = findMetadata ?st1 t v"
          unfolding st' by (simp add: findMetadata_def)
        from i2 l1 l2 f1 f2 ne show ?thesis by auto
      qed
    qed
  qed
qed

lemma extendPages_steps:
  assumes "prototypesIntact st"
    and "\<forall>q\<in>set pgs. ownKeys (pageVersion q) (pageTypeName q)"
    and "\<not> objectPrototypeKey t"
  shows "prototypesIntact (extendPages e pgs st) \<and>
         ((\<forall>q\<in>set pgs. \<not> (pageVersion q = v \<and> pageTypeName q = t)) \<longrightarrow>
            lookupProcessed (extendPages e pgs st) v t = lookupProcessed st v t \<and>
            findMetadata (extendPages e pgs st) t v = findMetadata st t v) \<and>
         (lookupProcessed st v t = Entry p \<longrightarrow>
            lookupProcessed (extendPages e pgs st) v t = Entry p \<and>
            findMetadata (extendPages e pgs st) t v = findMetadata st t v)"
  using assms
proof (induction pgs arbitrary: st)
  case Nil
  then show ?case by simp
next
  case (Cons pg pgs)
  obtain err pg' st' where r: "extendPageData e pg st = (err, pg', st')"
    by (metis prod_cases3)
  from Cons.prems have o: "ownKeys (pageVersion pg) (pageTypeName pg)"
    and os: "\<forall>q\<in>set pgs. ownKeys (pageVersion q) (pageTypeName q)"
    by simp_all
  note step = extendPageData_step [OF Cons.prems(1) o Cons.prems(3) r, of v p]
  from step have i': "prototypesIntact st'" by simp
  note ih = Cons.IH [OF i' os Cons.prems(3)]
  have ext: "extendPages e (pg # pgs) st = extendPages e pgs st'"
    using r by simp
  show ?case
    unfolding ext using step ih by auto
qed

text \<open>
  C1 as stated fails where the pipeline of the first request throws. The renderer of
  the example throws on the summary of the method \<^verbatim>\<open>hide\<close>, after the summary of the
  type has been rendered and assigned. The first request for \<^verbatim>\<open>Foo\<close> of version \<^verbatim>\<open>1.0\<close>
  ends with that exception and caches no processor; the rendered summary stays in the
  stored metadata. The second request for the same pair finds no processor, runs the
  pipeline again and renders the rendered summary a second time.
\<close>

theorem processor_cache_counterexample:
  "pageVersion examplePage = ''1.0'' \<and> pageTypeName examplePage = ''Foo'' \<and>
   fst (extendPageData throwingEnv examplePage exampleSite) = Some RenderError \<and>
   lookupProcessed (extendPages throwingEnv [examplePage] exampleSite) ''1.0'' ''Foo'' = NoEntry \<and>
   map_option type_summary (findMetadata (extendPages throwingEnv [examplePage] exampleSite) ''Foo'' ''1.0'') =
     Some (Some ''<p>See [Foo.bar](/api/Foo.html#bar)</p>'') \<and>
   fst (extendPageData throwingEnv examplePage (extendPages throwingEnv [examplePage] exampleSite)) =
     Some RenderError \<and>
   lookupProcessed (extendPages throwingEnv [examplePage, examplePage] exampleSite) ''1.0'' ''Foo'' = NoEntry \<and>
   map_option type_summary
       (findMetadata (extendPages throwingEnv [examplePage, examplePage] exampleSite) ''Foo'' ''1.0'') =
     Some (Some ''<p><p>See [Foo.bar](/api/Foo.html#bar)</p></p>'')"
proof -
  let ?e = throwingEnv
  let ?s0 = "\<lparr>md = exampleMetadata, proc = newMetadataProcessor ?e (pageVersion examplePage),
         link_open = renderer_link_open exampleSite\<rparr>"
  let ?s1 = "snd (transoformMetadataAndCollectHeaders ?e ?s0)"
  let ?st1 = "(storeMetadata (pageTypeName examplePage) (pageVersion examplePage) (md ?s1) exampleSite)
               \<lparr>renderer_link_open := link_open ?s1\<rparr>"
  let ?s0' = "\<lparr>md = md ?s1, proc = newMetadataProcessor ?e (pageVersion examplePage),
         link_open = renderer_link_open ?st1\<rparr>"
  let ?s2 = "snd (transoformMetadataAndCollectHeaders ?e ?s0')"
  let ?st2 = "(storeMetadata (pageTypeName examplePage) (pageVersion examplePage) (md ?s2) ?st1)
               \<lparr>renderer_link_open := link_open ?s2\<rparr>"
  have tv: "pageTypeName examplePage = ''Foo''" "pageVersion examplePage = ''1.0''"
    by (simp_all add: pageTypeName_def pageVersion_def examplePage_def)
  have api: "apiPathPattern_test (regularPath examplePage)"
    by (simp add: apiPathPattern_test_def examplePage_def)
  have own: "ownKeys (pageVersion examplePage) (pageTypeName examplePage)"
    by (simp add: tv ownKeys_def objectPrototypeKey_def)
  have found: "findMetadata exampleSite (pageTypeName examplePage) (pageVersion examplePage) =
      Some exampleMetadata"
    by (simp add: tv findMetadata_def exampleSite_def)
  have new: "lookupProcessed exampleSite (pageVersion examplePage) (pageTypeName examplePage) = NoEntry"
    by (simp add: tv lookupProcessed_def exampleSite_def)
  have intact: "prototypesIntact exampleSite"
    by (simp add: exampleSite_def)
  have "fst (transoformMetadataAndCollectHeaders ?e ?s0) = Some RenderError"
    by code_simp
  then have run1: "transoformMetadataAndCollectHeaders ?e ?s0 = (Some RenderError, ?s1)"
    by (metis prod.collapse)
  have sum1: "type_summary (md ?s1) = Some ''<p>See [Foo.bar](/api/Foo.html#bar)</p>''"
    by code_simp
  note first = extendPageData_throws [OF api found intact own new run1]
  have st1: "extendPages ?e [examplePage] exampleSite = ?st1"
    using first by simp
  have new1: "lookupProcessed ?st1 (pageVersion examplePage) (pageTypeName examplePage) = NoEntry"
    using new by (simp add: lookupProcessed_def)
  have found1: "findMetadata ?st1 (pageTypeName examplePage) (pageVersion examplePage) = Some (md ?s1)"
    using findMetadata_storeMetadata_same [OF found, of "md ?s1"]
    by (simp add: findMetadata_def)
  have intact1: "prototypesIntact ?st1"
    using intact by simp
  have link1: "renderer_link_open ?st1 = link_open ?s1"
    by simp
  have "fst (transoformMetadataAndCollectHeaders ?e
          \<lparr>md = md ?s1, proc = newMetadataProcessor ?e (pageVersion examplePage),
           link_open = link_open ?s1\<rparr>) = Some RenderError"
    by code_simp
  then have "fst (transoformMetadataAndCollectHeaders ?e ?s0') = Some RenderError"
    by (simp only: link1)
  then have run2: "transoformMetadataAndCollectHeaders ?e ?s0' = (Some RenderError, ?s2)"
    by (metis prod.collapse)
  have "type_summary (md (snd (transoformMetadataAndCollectHeaders ?e
          \<lparr>md = md ?s1, proc = newMetadataProcessor ?e (pageVersion examplePage),
           link_open = link_open ?s1\<rparr>))) = Some ''<p><p>See [Foo.bar](/api/Foo.html#bar)</p></p>''"
    by code_simp
  then have sum2: "type_summary (md ?s2) = Some ''<p><p>See [Foo.bar](/api/Foo.html#bar)</p></p>''"
    by (simp only: link1)
  note second = extendPageData_throws [OF api found1 intact1 own new1 run2]
  have st2: "extendPages ?e [examplePage, examplePage] exampleSite = ?st2"
    using first second by simp
  have new2: "lookupProcessed ?st2 (pageVersion examplePage) (pageTypeName examplePage) = NoEntry"
    using new1 by (simp add: lookupProcessed_def)
  have found2: "findMetadata ?st2 (pageTypeName examplePage) (pageVersion examplePage) = Some (md ?s2)"
    using findMetadata_storeMetadata_same [OF found1, of "md ?s2"]
    by (simp add: findMetadata_def)
  have 1: "fst (extendPageData ?e examplePage exampleSite) = Some RenderError"
    using first by simp
  have 2: "lookupProcessed (extendPages ?e [examplePage] exampleSite) ''1.0'' ''Foo'' = NoEntry"
    using new1 unfolding st1 tv .
  have 3: "map_option type_summary (findMetadata (extendPages ?e [examplePage] exampleSite) ''Foo'' ''1.0'') =
     Some (Some ''<p>See [Foo.bar](/api/Foo.html#bar)</p>'')"
    using found1 sum1 unfolding st1 tv by simp
  have 4: "fst (extendPageData ?e examplePage (extendPages ?e [examplePage] exampleSite)) = Some RenderError"
    unfolding st1 using second by simp
  have 5: "lookupProcessed (extendPages ?e [examplePage, examplePage] exampleSite) ''1.0'' ''Foo'' = NoEntry"
    using new2 unfolding st2 tv .
  have 6: "map_option type_summary
       (findMetadata (extendPages ?e [examplePage, examplePage] exampleSite) ''Foo'' ''1.0'') =
     Some (Some ''<p><p>See [Foo.bar](/api/Foo.html#bar)</p></p>'')"
    using found2 sum2 unfolding st2 tv by simp
  from tv 1 2 3 4 5 6 show ?thesis
    by (intro conjI)
qed

text \<open>
  A type name that is a name of \<^verbatim>\<open>Object.prototype\<close>. Once the request for \<^verbatim>\<open>Foo\<close> has
  made the object of version \<^verbatim>\<open>1.0\<close>, the cache lookup for the type \<^verbatim>\<open>toString\<close> of that
  version yields the function the object inherits: the first request for the pair
  throws a TypeError, creates no processor and leaves the site as it is, and so does
  every request after it.
\<close>

lemma inherited_member_request:
  "fst (extendPageData exampleEnv examplePage toStringSite) = None \<and>
   lookupProcessed (extendPages exampleEnv [examplePage] toStringSite) ''1.0'' ''toString'' =
     InheritedMember \<and>
   extendPageData exampleEnv (examplePage\<lparr>page_title := ''toString''\<rparr>)
       (extendPages exampleEnv [examplePage] toStringSite) =
     (Some TypeError, apiPage (examplePage\<lparr>page_title := ''toString''\<rparr>),
      extendPages exampleEnv [examplePage] toStringSite)"
proof -
  let ?pg = "examplePage\<lparr>page_title := ''toString''\<rparr>"
  let ?s0 = "\<lparr>md = exampleMetadata, proc = newMetadataProcessor exampleEnv (pageVersion examplePage),
         link_open = renderer_link_open toStringSite\<rparr>"
  let ?s1 = "snd (transoformMetadataAndCollectHeaders exampleEnv ?s0)"
  let ?st1 = "storeProcessed (pageVersion examplePage) (pageTypeName examplePage) (proc ?s1)
              ((storeMetadata (pageTypeName examplePage) (pageVersion examplePage) (md ?s1) toStringSite)
                 \<lparr>renderer_link_open := link_open ?s1\<rparr>)"
  have tv: "pageTypeName examplePage = ''Foo''" "pageVersion examplePage = ''1.0''"
    "pageTypeName ?pg = ''toString''" "pageVersion ?pg = ''1.0''"
    by (simp_all add: pageTypeName_def pageVersion_def examplePage_def)
  have api: "apiPathPattern_test (regularPath examplePage)" "apiPathPattern_test (regularPath ?pg)"
    by (simp_all add: apiPathPattern_test_def examplePage_def)
  have own: "ownKeys (pageVersion examplePage) (pageTypeName examplePage)"
    "ownKeys (pageVersion ?pg) (pageTypeName ?pg)"
    by (simp_all add: tv ownKeys_def objectPrototypeKey_def)
  have found: "findMetadata toStringSite (pageTypeName examplePage) (pageVersion examplePage) =
      Some exampleMetadata"
    by (simp add: tv findMetadata_def toStringSite_def)
  have new: "lookupProcessed toStringSite (pageVersion examplePage) (pageTypeName examplePage) = NoEntry"
    by (simp add: tv lookupProcessed_def toStringSite_def exampleSite_def)
  have intact: "prototypesIntact toStringSite"
    by (simp add: toStringSite_def exampleSite_def)
  have "fst (transoformMetadataAndCollectHeaders exampleEnv ?s0) = None"
    by code_simp
  then have run: "transoformMetadataAndCollectHeaders exampleEnv ?s0 = (None, ?s1)"
    by (metis prod.collapse)
  note first = extendPageData_first [OF api(1) found intact own(1) new run]
  have st1: "extendPages exampleEnv [examplePage] toStringSite = ?st1"
    using first by simp
  have intact1: "prototypesIntact ?st1"
    using intact by simp
  have "findMetadata ?st1 ''toString'' ''1.0'' = findMetadata toStringSite ''toString'' ''1.0''"
    using findMetadata_storeMetadata_other [of "''toString''" "''Foo''" "''1.0''" "''1.0''" "md ?s1" toStringSite]
    by (simp add: findMetadata_def tv)
  then have found1: "findMetadata ?st1 (pageTypeName ?pg) (pageVersion ?pg) =
      Some (exampleMetadata\<lparr>type_name := ''toString''\<rparr>)"
    by (simp add: tv findMetadata_def toStringSite_def)
  have inh: "lookupProcessed ?st1 (pageVersion ?pg) (pageTypeName ?pg) = InheritedMember"
    by (simp add: tv lookupProcessed_def storeProcessed_def toStringSite_def exampleSite_def
          objectPrototypeKey_def)
  note second = extendPageData_inherited [OF api(2) found1 intact1 own(2) inh, of exampleEnv]
  have 1: "fst (extendPageData exampleEnv examplePage toStringSite) = None"
    using first by simp
  have 2: "lookupProcessed (extendPages exampleEnv [examplePage] toStringSite) ''1.0'' ''toString'' =
     InheritedMember"
    using inh unfolding st1 tv .
  have 3: "extendPageData exampleEnv ?pg (extendPages exampleEnv [examplePage] toStringSite) =
     (Some TypeError, apiPage ?pg, extendPages exampleEnv [examplePage] toStringSite)"
    unfolding st1 using second .
  from 1 2 3 show ?thesis
    by (intro conjI)
qed

text \<open>
  C1, as the code has it. Let the process start with intact prototypes and no processor
  cached for a pair of version and type whose names are not names of
  \<^verbatim>\<open>Object.prototype\<close>, and let the requests before the first one for the pair be
  requests for other pairs, with keys among the plugin's own. Then these requests
  create no processor for the pair. Let the first request for the pair be for a page
  of the API section whose metadata is in the store, and let its pipeline end with the
  state \<open>s'\<close>.
  \<^item> When the pipeline returns normally, the request has run it once, on the stored
    metadata and a new processor; it leaves the result in the store, caches the
    processor and appends its headers to the page. From then on, whatever requests
    follow (with keys among the plugin's own, whether they throw or not), the cache
    holds that same processor for the pair and the store that same metadata, and a
    request for the pair returns normally, appends the headers of the cached processor
    to its page and leaves the whole site (store, cache, link rule) as it found it.
  \<^item> When the pipeline throws, the request ends with that exception, the page marked
    but without headers; no processor is cached for the pair, and the store holds the
    metadata as the pipeline left it, so that the next request for the pair runs the
    pipeline again, on that metadata.
\<close>

theorem processor_cached_when_pipeline_returns:
  assumes intact: "prototypesIntact st0"
    and ordinary: "\<not> objectPrototypeKey (pageVersion pg)" "\<not> objectPrototypeKey (pageTypeName pg)"
    and new: "lookupProcessed st0 (pageVersion pg) (pageTypeName pg) = NoEntry"
    and others: "\<forall>q\<in>set before. ownKeys (pageVersion q) (pageTypeName q) \<and>
                   \<not> (pageVersion q = pageVersion pg \<and> pageTypeName q = pageTypeName pg)"
    and st: "st = extendPages e before st0"
    and api: "apiPathPattern_test (regularPath pg)"
    and found: "findMetadata st (pageTypeName pg) (pageVersion pg) = Some m"
    and run: "transoformMetadataAndCollectHeaders e
           \<lparr>md = m, proc = newMetadataProcessor e (pageVersion pg),
            link_open = renderer_link_open st\<rparr> = (err, s')"
    and later: "apiPathPattern_test (regularPath pg2)"
      "pageTypeName pg2 = pageTypeName pg" "pageVersion pg2 = pageVersion pg"
  shows "lookupProcessed st (pageVersion pg) (pageTypeName pg) = NoEntry \<and>
         findMetadata st (pageTypeName pg) (pageVersion pg) =
           findMetadata st0 (pageTypeName pg) (pageVersion pg) \<and>
         (err = None \<longrightarrow>
            (\<exists>st1.
               extendPageData e pg st = (None, appendAdditionalHeaders (proc s') (apiPage pg), st1) \<and>
               lookupProcessed st1 (pageVersion pg) (pageTypeName pg) = Entry (proc s') \<and>
               findMetadata st1 (pageTypeName pg) (pageVersion pg) = Some (md s') \<and>
               (\<forall>pgs.
                  (\<forall>q\<in>set pgs. ownKeys (pageVersion q) (pageTypeName q)) \<longrightarrow>
                  lookupProcessed (extendPages e pgs st1) (pageVersion pg) (pageTypeName pg) =
                    Entry (proc s') \<and>
                  findMetadata (extendPages e pgs st1) (pageTypeName pg) (pageVersion pg) =
                    Some (md s') \<and>
                  extendPageData e pg2 (extendPages e pgs st1) =
                    (None, appendAdditionalHeaders (proc s') (apiPage pg2),
                     extendPages e pgs st1)))) \<and>
         (err \<noteq> None \<longrightarrow>
            (\<exists>st1.
               extendPageData e pg st = (err, apiPage pg, st1) \<and>
               lookupProcessed st1 (pageVersion pg) (pageTypeName pg) = NoEntry \<and>
               findMetadata st1 (pageTypeName pg) (pageVersion pg) = Some (md s') \<and>
               renderer_link_open st1 = link_open s'))"
proof -
  let ?t = "pageTypeName pg" and ?v = "pageVersion pg"
  have own: "ownKeys ?v ?t"
    using ordinary by (rule ownKeys_ordinary)
  have os: "\<forall>q\<in>set before. ownKeys (pageVersion q) (pageTypeName q)"
    and ns: "\<forall>q\<in>set before. \<not> (pageVersion q = ?v \<and> pageTypeName q = ?t)"
    using others by simp_all
  note b = extendPages_steps [OF intact os ordinary(2), of e ?v]
  from b have i: "prototypesIntact st"
    unfolding st by simp
  from b ns new have n: "lookupProcessed st ?v ?t = NoEntry"
    unfolding st by simp
  from b ns have f: "findMetadata st ?t ?v = findMetadata st0 ?t ?v"
    unfolding st by simp
  have normal: "\<exists>st1.
       extendPageData e pg st = (None, appendAdditionalHeaders (proc s') (apiPage pg), st1) \<and>
       lookupProcessed st1 ?v ?t = Entry (proc s') \<and>
       findMetadata st1 ?t ?v = Some (md s') \<and>
       (\<forall>pgs.
          (\<forall>q\<in>set pgs. ownKeys (pageVersion q) (pageTypeName q)) \<longrightarrow>
          lookupProcessed (extendPages e pgs st1) ?v ?t = Entry (proc s') \<and>
          findMetadata (extendPages e pgs st1) ?t ?v = Some (md s') \<and>
          extendPageData e pg2 (extendPages e pgs st1) =
            (None, appendAdditionalHeaders (proc s') (apiPage pg2), extendPages e pgs st1))"
    if "err = None"
  proof -
    let ?st1 = "storeProcessed ?v ?t (proc s')
                ((storeMetadata ?t ?v (md s') st)\<lparr>renderer_link_open := link_open s'\<rparr>)"
    from run that have run': "transoformMetadataAndCollectHeaders e
           \<lparr>md = m, proc = newMetadataProcessor e ?v, link_open = renderer_link_open st\<rparr> = (None, s')"
      by simp
    have first: "extendPageData e pg st =
        (None, appendAdditionalHeaders (proc s') (apiPage pg), ?st1)"
      using api found i own n run' by (rule extendPageData_first)
    have cached: "lookupProcessed ?st1 ?v ?t = Entry (proc s')"
      by (rule lookupProcessed_storeProcessed_same)
    have stored: "findMetadata ?st1 ?t ?v = Some (md s')"
      using findMetadata_storeMetadata_same [OF found, of "md s'"]
      by (simp add: findMetadata_def)
    have i1: "prototypesIntact ?st1"
      using i by simp
    have rest: "lookupProcessed (extendPages e pgs ?st1) ?v ?t = Entry (proc s') \<and>
        findMetadata (extendPages e pgs ?st1) ?t ?v = Some (md s') \<and>
        extendPageData e pg2 (extendPages e pgs ?st1) =
          (None, appendAdditionalHeaders (proc s') (apiPage pg2), extendPages e pgs ?st1)"
      if ps: "\<forall>q\<in>set pgs. ownKeys (pageVersion q) (pageTypeName q)" for pgs
    proof -
      note a = extendPages_steps [OF i1 ps ordinary(2), of e ?v "proc s'"]
      from a cached stored have
        k: "lookupProcessed (extendPages e pgs ?st1) ?v ?t = Entry (proc s')"
           "findMetadata (extendPages e pgs ?st1) ?t ?v = Some (md s')"
        and i2: "prototypesIntact (extendPages e pgs ?st1)"
        by simp_all
      have "extendPageData e pg2 (extendPages e pgs ?st1) =
          (None, appendAdditionalHeaders (proc s') (apiPage pg2), extendPages e pgs ?st1)"
        using later k i2 own by (intro extendPageData_cached) simp_all
      with k show ?thesis by simp
    qed
    show ?thesis
      using first cached stored rest by blast
  qed
  have throws: "\<exists>st1.
       extendPageData e pg st = (err, apiPage pg, st1) \<and>
       lookupProcessed st1 ?v ?t = NoEntry \<and>
       findMetadata st1 ?t ?v = Some (md s') \<and>
       renderer_link_open st1 = link_open s'"
    if "err \<noteq> None"
  proof -
    let ?st1 = "(storeMetadata ?t ?v (md s') st)\<lparr>renderer_link_open := link_open s'\<rparr>"
    from that obtain x where x: "err = Some x" by auto
    with run have run': "transoformMetadataAndCollectHeaders e
           \<lparr>md = m, proc = newMetadataProcessor e ?v, link_open = renderer_link_open st\<rparr> = (Some x, s')"
      by simp
    have first: "extendPageData e pg st = (err, apiPage pg, ?st1)"
      unfolding x using api found i own n run' by (rule extendPageData_throws)
    have none: "lookupProcessed ?st1 ?v ?t = NoEntry"
      using n by (simp add: lookupProcessed_def)
    have stored: "findMetadata ?st1 ?t ?v = Some (md s')"
      using findMetadata_storeMetadata_same [OF found, of "md s'"]
      by (simp add: findMetadata_def)
    have "renderer_link_open ?st1 = link_open s'"
      by simp
    with first none stored show ?thesis
      by blast
  qed
  from n f normal throws show ?thesis
    by blast
qed

text \<open>
  The theorem at the examples. With the renderer that does not throw: a request for
  \<^verbatim>\<open>Bar\<close> comes first and leaves \<^verbatim>\<open>Foo\<close> uncached, the first request for \<^verbatim>\<open>Foo\<close> caches its
  processor, and later requests for \<^verbatim>\<open>Foo\<close>, with other requests in between, append the
  headers of that processor and change nothing. With the renderer that throws: the
  first request for \<^verbatim>\<open>Foo\<close> caches nothing.
\<close>

theorem processor_cached_when_pipeline_returns_witness:
  "prototypesIntact exampleSite \<and>
   \<not> objectPrototypeKey (pageVersion examplePage) \<and> \<not> objectPrototypeKey (pageTypeName examplePage) \<and>
   lookupProcessed exampleSite (pageVersion examplePage) (pageTypeName examplePage) = NoEntry \<and>
   apiPathPattern_test (regularPath examplePage) \<and>
   lookupProcessed (extendPages exampleEnv [examplePage\<lparr>page_title := ''Bar''\<rparr>] exampleSite)
     (pageVersion examplePage) (pageTypeName examplePage) = NoEntry \<and>
   findMetadata (extendPages exampleEnv [examplePage\<lparr>page_title := ''Bar''\<rparr>] exampleSite)
     (pageTypeName examplePage) (pageVersion examplePage) = Some exampleMetadata \<and>
   (\<exists>s' st1.
      transoformMetadataAndCollectHeaders exampleEnv
        \<lparr>md = exampleMetadata, proc = newMetadataProcessor exampleEnv (pageVersion examplePage),
         link_open = renderer_link_open
           (extendPages exampleEnv [examplePage\<lparr>page_title := ''Bar''\<rparr>] exampleSite)\<rparr> = (None, s') \<and>
      extendPageData exampleEnv examplePage
          (extendPages exampleEnv [examplePage\<lparr>page_title := ''Bar''\<rparr>] exampleSite) =
        (None, appendAdditionalHeaders (proc s') (apiPage examplePage), st1) \<and>
      lookupProcessed st1 (pageVersion examplePage) (pageTypeName examplePage) = Entry (proc s') \<and>
      findMetadata st1 (pageTypeName examplePage) (pageVersion examplePage) = Some (md s') \<and>
      extendPageData exampleEnv examplePage st1 =
        (None, appendAdditionalHeaders (proc s') (apiPage examplePage), st1) \<and>
      extendPageData exampleEnv examplePage
          (extendPages exampleEnv [examplePage\<lparr>page_title := ''Bar''\<rparr>, examplePage] st1) =
        (None, appendAdditionalHeaders (proc s') (apiPage examplePage),
         extendPages exampleEnv [examplePage\<lparr>page_title := ''Bar''\<rparr>, examplePage] st1)) \<and>
   (\<exists>s' st1.
      transoformMetadataAndCollectHeaders throwingEnv
        \<lparr>md = exampleMetadata, proc = newMetadataProcessor throwingEnv (pageVersion examplePage),
         link_open = renderer_link_open exampleSite\<rparr> = (Some RenderError, s') \<and>
      extendPageData throwingEnv examplePage exampleSite =
        (Some RenderError, apiPage examplePage, st1) \<and>
      lookupProcessed st1 (pageVersion examplePage) (pageTypeName examplePage) = NoEntry \<and>
      findMetadata st1 (pageTypeName examplePage) (pageVersion examplePage) = Some (md s') \<and>
      renderer_link_open st1 = link_open s')"
proof -
  let ?bar = "examplePage\<lparr>page_title := ''Bar''\<rparr>"
  let ?st = "extendPages exampleEnv [?bar] exampleSite"
  let ?s0 = "\<lparr>md = exampleMetadata, proc = newMetadataProcessor exampleEnv (pageVersion examplePage),
         link_open = renderer_link_open ?st\<rparr>"
  let ?s' = "snd (transoformMetadataAndCollectHeaders exampleEnv ?s0)"
  let ?t0 = "\<lparr>md = exampleMetadata, proc = newMetadataProcessor throwingEnv (pageVersion examplePage),
         link_open = renderer_link_open exampleSite\<rparr>"
  let ?t' = "snd (transoformMetadataAndCollectHeaders throwingEnv ?t0)"
  have tv: "pageTypeName examplePage = ''Foo''" "pageVersion examplePage = ''1.0''"
    "pageTypeName ?bar = ''Bar''" "pageVersion ?bar = ''1.0''"
    by (simp_all add: pageTypeName_def pageVersion_def examplePage_def)
  have api: "apiPathPattern_test (regularPath examplePage)"
    by (simp add: apiPathPattern_test_def examplePage_def)
  have ord: "\<not> objectPrototypeKey (pageVersion examplePage)"
    "\<not> objectPrototypeKey (pageTypeName examplePage)"
    by (simp_all add: tv objectPrototypeKey_def)
  have intact: "prototypesIntact exampleSite"
    by (simp add: exampleSite_def)
  have found0: "findMetadata exampleSite (pageTypeName examplePage) (pageVersion examplePage) =
      Some exampleMetadata"
    by (simp add: tv findMetadata_def exampleSite_def)
  have new: "lookupProcessed exampleSite (pageVersion examplePage) (pageTypeName examplePage) = NoEntry"
    by (simp add: tv lookupProcessed_def exampleSite_def)
  have others: "\<forall>q\<in>set [?bar]. ownKeys (pageVersion q) (pageTypeName q) \<and>
      \<not> (pageVersion q = pageVersion examplePage \<and> pageTypeName q = pageTypeName examplePage)"
    by (simp add: tv ownKeys_def objectPrototypeKey_def)
  have none: "\<forall>q\<in>set ([] :: page list). ownKeys (pageVersion q) (pageTypeName q) \<and>
      \<not> (pageVersion q = pageVersion examplePage \<and> pageTypeName q = pageTypeName examplePage)"
    by simp
  have own2: "\<forall>q\<in>set [?bar, examplePage]. ownKeys (pageVersion q) (pageTypeName q)"
    by (simp add: tv ownKeys_def objectPrototypeKey_def)
  have own0: "\<forall>q\<in>set ([] :: page list). ownKeys (pageVersion q) (pageTypeName q)"
    by simp
  obtain err where run: "transoformMetadataAndCollectHeaders exampleEnv ?s0 = (err, ?s')"
    by (metis prod.collapse)
  have "findMetadata ?st (pageTypeName examplePage) (pageVersion examplePage) =
      findMetadata exampleSite (pageTypeName examplePage) (pageVersion examplePage)"
    using extendPages_steps [OF intact _ ord(2), of "[?bar]" exampleEnv "pageVersion examplePage"]
      others
    by simp
  with found0 have found: "findMetadata ?st (pageTypeName examplePage) (pageVersion examplePage) =
      Some exampleMetadata"
    by simp
  have stay: "lookupProcessed ?st (pageVersion examplePage) (pageTypeName examplePage) = NoEntry"
    using processor_cached_when_pipeline_returns
      [OF intact ord new others refl api found run api refl refl]
    by simp
  have "fst (transoformMetadataAndCollectHeaders exampleEnv ?s0) = None"
    by code_simp
  with run have err: "err = None"
    by (metis fst_conv)
  from processor_cached_when_pipeline_returns
      [OF intact ord new others refl api found run api refl refl] err
  obtain st1 where
    1: "extendPageData exampleEnv examplePage ?st =
          (None, appendAdditionalHeaders (proc ?s') (apiPage examplePage), st1)" and
    2: "lookupProcessed st1 (pageVersion examplePage) (pageTypeName examplePage) = Entry (proc ?s')" and
    3: "findMetadata st1 (pageTypeName examplePage) (pageVersion examplePage) = Some (md ?s')" and
    4: "\<And>pgs. (\<forall>q\<in>set pgs. ownKeys (pageVersion q) (pageTypeName q)) \<Longrightarrow>
          extendPageData exampleEnv examplePage (extendPages exampleEnv pgs st1) =
          (None, appendAdditionalHeaders (proc ?s') (apiPage examplePage),
           extendPages exampleEnv pgs st1)"
    by blast
  from 4 [OF own0] have 5: "extendPageData exampleEnv examplePage st1 =
        (None, appendAdditionalHeaders (proc ?s') (apiPage examplePage), st1)"
    by simp
  note 6 = 4 [OF own2]
  from run err have run0: "transoformMetadataAndCollectHeaders exampleEnv ?s0 = (None, ?s')"
    by simp
  have normal: "\<exists>s' st1.
      transoformMetadataAndCollectHeaders exampleEnv ?s0 = (None, s') \<and>
      extendPageData exampleEnv examplePage ?st =
        (None, appendAdditionalHeaders (proc s') (apiPage examplePage), st1) \<and>
      lookupProcessed st1 (pageVersion examplePage) (pageTypeName examplePage) = Entry (proc s') \<and>
      findMetadata st1 (pageTypeName examplePage) (pageVersion examplePage) = Some (md s') \<and>
      extendPageData exampleEnv examplePage st1 =
        (None, appendAdditionalHeaders (proc s') (apiPage examplePage), st1) \<and>
      extendPageData exampleEnv examplePage
          (extendPages exampleEnv [?bar, examplePage] st1) =
        (None, appendAdditionalHeaders (proc s') (apiPage examplePage),
         extendPages exampleEnv [?bar, examplePage] st1)"
    using run0 1 2 3 5 6 by (intro exI [of _ ?s'] exI [of _ st1] conjI)
  have "fst (transoformMetadataAndCollectHeaders throwingEnv ?t0) = Some RenderError"
    by code_simp
  then have trun: "transoformMetadataAndCollectHeaders throwingEnv ?t0 = (Some RenderError, ?t')"
    by (metis prod.collapse)
  have st0: "exampleSite = extendPages throwingEnv [] exampleSite"
    by simp
  have found0': "findMetadata (extendPages throwingEnv [] exampleSite)
      (pageTypeName examplePage) (pageVersion examplePage) = Some exampleMetadata"
    using found0 by simp
  have trun': "transoformMetadataAndCollectHeaders throwingEnv
      \<lparr>md = exampleMetadata, proc = newMetadataProcessor throwingEnv (pageVersion examplePage),
       link_open = renderer_link_open (extendPages throwingEnv [] exampleSite)\<rparr> =
      (Some RenderError, ?t')"
    using trun by simp
  from processor_cached_when_pipeline_returns
      [OF intact ord new none refl api found0' trun' api refl refl]
  obtain st2 where
    7: "extendPageData throwingEnv examplePage exampleSite = (Some RenderError, apiPage examplePage, st2)" and
    8: "lookupProcessed st2 (pageVersion examplePage) (pageTypeName examplePage) = NoEntry" and
    9: "findMetadata st2 (pageTypeName examplePage) (pageVersion examplePage) = Some (md ?t')" and
    10: "renderer_link_open st2 = link_open ?t'"
    by auto
  have throws: "\<exists>s' st1.
      transoformMetadataAndCollectHeaders throwingEnv ?t0 = (Some RenderError, s') \<and>
      extendPageData throwingEnv examplePage exampleSite =
        (Some RenderError, apiPage examplePage, st1) \<and>
      lookupProcessed st1 (pageVersion examplePage) (pageTypeName examplePage) = NoEntry \<and>
      findMetadata st1 (pageTypeName examplePage) (pageVersion examplePage) = Some (md s') \<and>
      renderer_link_open st1 = link_open s'"
    using trun 7 8 9 10 by (intro exI [of _ ?t'] exI [of _ st2] conjI)
  from intact ord new api stay found normal throws show ?thesis
    by (intro conjI)
qed

end
